theory Spec2Isabelle
  imports Complex_Main
begin

section \<open>JavaScript values used by the view\<close>

subsection \<open>Strings\<close>

text \<open>
  A JavaScript string is a sequence of UTF-16 code units; a code unit is modelled by its
  numeric value. \<open>js\<close> turns an ASCII literal into such a sequence.
\<close>

type_synonym jsstring = "nat list"

definition js :: "string \<Rightarrow> jsstring" where
  "js s = map of_char s"

text \<open>
  The code units that \<open>String.prototype.trim\<close> and \<open>parseInt\<close> strip: the WhiteSpace and
  LineTerminator productions of ECMAScript (TAB, LF, VT, FF, CR, SP, NBSP, the Unicode
  space separators, LS, PS and the byte order mark).
\<close>

definition is_white_space :: "nat \<Rightarrow> bool" where
  "is_white_space c =
     (c = 9 \<or> c = 10 \<or> c = 11 \<or> c = 12 \<or> c = 13 \<or> c = 32 \<or> c = 160 \<or> c = 5760 \<or>
      (8192 \<le> c \<and> c \<le> 8202) \<or> c = 8232 \<or> c = 8233 \<or> c = 8239 \<or> c = 8287 \<or>
      c = 12288 \<or> c = 65279)"

definition trim :: "jsstring \<Rightarrow> jsstring" where
  "trim s = rev (dropWhile is_white_space (rev (dropWhile is_white_space s)))"

subsection \<open>Numbers\<close>

text \<open>
  The numbers the view computes with are integers (seconds, milliseconds) or \<open>NaN\<close>, which
  \<open>parseInt\<close> returns for a field without digits. Integers are unbounded here: the loss of
  precision of a double beyond \<open>2^53\<close> is outside the model.
\<close>

datatype jsnum = Num int | NaN

fun js_times :: "jsnum \<Rightarrow> jsnum \<Rightarrow> jsnum" where
  "js_times (Num a) (Num b) = Num (a * b)"
| "js_times _ _ = NaN"

fun js_plus :: "jsnum \<Rightarrow> jsnum \<Rightarrow> jsnum" where
  "js_plus (Num a) (Num b) = Num (a + b)"
| "js_plus _ _ = NaN"

fun js_minus :: "jsnum \<Rightarrow> jsnum \<Rightarrow> jsnum" where
  "js_minus (Num a) (Num b) = Num (a - b)"
| "js_minus _ _ = NaN"

text \<open>\<open>Math.max\<close> returns \<open>NaN\<close> as soon as one argument is \<open>NaN\<close>.\<close>

fun js_max :: "jsnum \<Rightarrow> jsnum \<Rightarrow> jsnum" where
  "js_max (Num a) (Num b) = Num (max a b)"
| "js_max _ _ = NaN"

text \<open>
  \<open>Math.round(x / 1000)\<close> for an integer \<open>x\<close>: \<open>Math.round\<close> takes the nearest integer and
  rounds a tie towards plus infinity, which is \<open>floor (x / 1000 + 1 / 2)\<close>.
\<close>

fun round_div_1000 :: "jsnum \<Rightarrow> jsnum" where
  "round_div_1000 (Num x) = Num ((x + 500) div 1000)"
| "round_div_1000 NaN = NaN"

text \<open>\<open>a <= b\<close> is false when an operand is \<open>NaN\<close>; \<open>a !== b\<close> is true then.\<close>

fun js_le :: "jsnum \<Rightarrow> jsnum \<Rightarrow> bool" where
  "js_le (Num a) (Num b) = (a \<le> b)"
| "js_le _ _ = False"

fun js_strict_ne :: "jsnum \<Rightarrow> jsnum \<Rightarrow> bool" where
  "js_strict_ne (Num a) (Num b) = (a \<noteq> b)"
| "js_strict_ne _ _ = True"

text \<open>
  \<open>parseInt(s, 10)\<close>: leading white space is skipped, one sign is read, then the longest
  run of decimal digits; without a digit the result is \<open>NaN\<close>.
\<close>

definition is_digit :: "nat \<Rightarrow> bool" where
  "is_digit c = (48 \<le> c \<and> c \<le> 57)"

definition digits_value :: "nat list \<Rightarrow> int" where
  "digits_value ds = foldl (\<lambda>acc c. acc * 10 + (int c - 48)) 0 ds"

definition parseInt :: "jsstring \<Rightarrow> jsnum" where
  "parseInt s =
     (let S = dropWhile is_white_space s;
          sign = (if S \<noteq> [] \<and> hd S = 45 then - 1 else 1);
          S' = (if S \<noteq> [] \<and> (hd S = 43 \<or> hd S = 45) then tl S else S);
          Z = takeWhile is_digit S'
      in if Z = [] then NaN else Num (sign * digits_value Z))"

text \<open>\<open>String(n)\<close> for an integer and \<open>padStart(2, '0')\<close>.\<close>

fun digits_of :: "nat \<Rightarrow> nat list" where
  "digits_of n = (if n < 10 then [48 + n] else digits_of (n div 10) @ [48 + n mod 10])"

declare digits_of.simps [simp del]

definition String_of :: "int \<Rightarrow> jsstring" where
  "String_of i = (if i < 0 then 45 # digits_of (nat (- i)) else digits_of (nat i))"

definition padStart2 :: "jsstring \<Rightarrow> jsstring" where
  "padStart2 s = replicate (2 - length s) 48 @ s"

subsection \<open>Dates\<close>

text \<open>
  A \<open>Date\<close> is modelled by its local calendar fields, which are what the view reads
  (\<open>getFullYear\<close>, \<open>getMonth\<close> from 0, \<open>getDate\<close> from 1) and writes (\<open>setMonth\<close>). The
  time of day is left out, and so is the limit of 100 000 000 days around 1970 beyond
  which a \<open>Date\<close> is invalid. Of the time zone the model keeps what can change a calendar
  field: the local days that the zone skipped (see \<open>local_date\<close> below).
\<close>

record jsdate =
  getFullYear :: int
  getMonth :: int
  getDate :: int

definition is_leap :: "int \<Rightarrow> bool" where
  "is_leap y = (y mod 4 = 0 \<and> (y mod 100 \<noteq> 0 \<or> y mod 400 = 0))"

definition days_in_month :: "int \<Rightarrow> int \<Rightarrow> int" where
  "days_in_month y m =
     (if m = 1 then (if is_leap y then 29 else 28)
      else if m = 3 \<or> m = 5 \<or> m = 8 \<or> m = 10 then 30 else 31)"

text \<open>
  ECMAScript's \<open>MakeDay(year, month, date)\<close> accepts any integers: the month is reduced
  modulo 12 with the year carried, and the day number is that of the first of the month
  plus \<open>date - 1\<close>. Read back as a calendar date this is a carry of the days over the
  months, a month at a time.
\<close>

function carry_days :: "int \<Rightarrow> int \<Rightarrow> int \<Rightarrow> jsdate" where
  "carry_days y m d =
     (if d < 1 then
        carry_days (if m = 0 then y - 1 else y) (if m = 0 then 11 else m - 1)
          (d + days_in_month (if m = 0 then y - 1 else y) (if m = 0 then 11 else m - 1))
      else if days_in_month y m < d then
        carry_days (if m = 11 then y + 1 else y) (if m = 11 then 0 else m + 1)
          (d - days_in_month y m)
      else \<lparr>getFullYear = y, getMonth = m, getDate = d\<rparr>)"
  by pat_completeness auto
termination
  by (relation "measure (\<lambda>(y, m, d). if d < 1 then nat (32 - d) else nat d)")
     (auto simp: days_in_month_def)

declare carry_days.simps [simp del]

definition MakeDay :: "int \<Rightarrow> int \<Rightarrow> int \<Rightarrow> jsdate" where
  "MakeDay y m d = carry_days (y + m div 12) (m mod 12) d"

text \<open>
  The day number since 1 January 1970 (\<open>DayFromYear\<close> and the month table of ECMAScript)
  and the week day \<open>getDay\<close>, 0 for Sunday: 1 January 1970 was a Thursday.
\<close>

definition DayFromYear :: "int \<Rightarrow> int" where
  "DayFromYear y =
     365 * (y - 1970) + (y - 1969) div 4 - (y - 1901) div 100 + (y - 1601) div 400"

definition month_start :: "int \<Rightarrow> int \<Rightarrow> int" where
  "month_start y m =
     (let L = (if is_leap y then 1 else 0) in
      if m = 0 then 0 else if m = 1 then 31 else if m = 2 then 59 + L
      else if m = 3 then 90 + L else if m = 4 then 120 + L else if m = 5 then 151 + L
      else if m = 6 then 181 + L else if m = 7 then 212 + L else if m = 8 then 243 + L
      else if m = 9 then 273 + L else if m = 10 then 304 + L else 334 + L)"

definition Day :: "jsdate \<Rightarrow> int" where
  "Day dt = DayFromYear (getFullYear dt) + month_start (getFullYear dt) (getMonth dt)
              + getDate dt - 1"

definition getDay :: "jsdate \<Rightarrow> int" where
  "getDay dt = (Day dt + 4) mod 7"

text \<open>
  The time zone. \<open>new Date(y, m, d)\<close> and \<open>setMonth\<close> compute a local time and turn it into
  a time value; ECMAScript reads a local time that the zone skipped with the offset in
  force before the transition, so the time read back is later by the length of the gap.
  A gap shorter than a day (daylight saving) leaves midnight on its day. A zone that
  skipped a whole day (Pacific/Apia had no 30 December 2011) gives the day after it for a
  date inside the gap. A zone is given by the dates on which it skipped the local time
  asked for, which is midnight for \<open>new Date(y, m, d)\<close> and the cursor's time of day for
  \<open>setMonth\<close>, each with the number of days by which the date read back is later.
\<close>

type_synonym zone = "(jsdate \<times> int) list"

definition local_date :: "zone \<Rightarrow> jsdate \<Rightarrow> jsdate" where
  "local_date z dt =
     (case map_of z dt of
        None \<Rightarrow> dt
      | Some n \<Rightarrow> carry_days (getFullYear dt) (getMonth dt) (getDate dt + n))"

text \<open>\<open>new Date(y, m, d)\<close>: a year from 0 to 99 stands for 1900 + y.\<close>

definition full_year :: "int \<Rightarrow> int" where
  "full_year y = (if 0 \<le> y \<and> y \<le> 99 then 1900 + y else y)"

definition new_Date :: "zone \<Rightarrow> int \<Rightarrow> int \<Rightarrow> int \<Rightarrow> jsdate" where
  "new_Date z y m d = local_date z (MakeDay (full_year y) m d)"

text \<open>\<open>setMonth(m)\<close> keeps the year and the day of the month and normalises the result.\<close>

definition setMonth :: "zone \<Rightarrow> jsdate \<Rightarrow> int \<Rightarrow> jsdate" where
  "setMonth z dt m = local_date z (MakeDay (getFullYear dt) m (getDate dt))"

definition valid_date :: "jsdate \<Rightarrow> bool" where
  "valid_date dt =
     (0 \<le> getMonth dt \<and> getMonth dt \<le> 11 \<and> 1 \<le> getDate dt \<and>
      getDate dt \<le> days_in_month (getFullYear dt) (getMonth dt))"

section \<open>The view\<close>

text \<open>
  \<open>main.js\<close> holds the plugin twice, as version 1.0.0 and as version 1.1.0. What follows
  is \<open>SimpleWorkingView\<close> of version 1.1.0, the later one, which keeps the timer on the
  wall clock and its page elements in fields of its own.
\<close>

text \<open>
  A task object \<open>{id, text, completed}\<close>. The id is the value of \<open>Date.now()\<close> at
  creation, an integer number of milliseconds.
\<close>

record task =
  task_id :: int
  task_text :: jsstring
  completed :: bool

text \<open>A paragraph appended to the view's first section by \<open>createDailyFile\<close>.\<close>

datatype message_class = success_message | error_message

record message =
  cls :: message_class
  message_text :: jsstring

text \<open>
  The fields of \<open>SimpleWorkingView\<close> that its constructor sets, followed by what the view
  leaves with the browser: the paragraphs of its first \<open>.dtp-section\<close> element (\<open>None\<close>
  when \<open>querySelector\<close> finds no such element), the pending removals of success
  paragraphs (due time and paragraph text) and the due times of the pending auto-start
  callbacks of \<open>completeTimer\<close>. \<open>timerEndTime\<close> is \<open>None\<close> for \<open>null\<close>;
  \<open>timerAnimationFrame\<close> is \<open>True\<close> when the field holds a request id. The rendering of
  the timer and of the task list has no effect on these fields and is left out.
\<close>

record view =
  workTime :: jsnum
  breakTime :: jsnum
  timeLeft :: jsnum
  isWorkSession :: bool
  timerRunning :: bool
  timerEndTime :: "jsnum option"
  timerAnimationFrame :: bool
  currentDate :: jsdate
  tasks :: "task list"
  section_messages :: "message list option"
  pendingRemovals :: "(int \<times> jsstring) list"
  pendingAutoStarts :: "int list"

text \<open>The constructor; \<open>today\<close> is \<open>new Date()\<close>. \<open>onOpen\<close> creates the sections.\<close>

definition initial_view :: "jsdate \<Rightarrow> view" where
  "initial_view today =
     \<lparr>workTime = Num (40 * 60), breakTime = Num (5 * 60), timeLeft = Num (40 * 60),
      isWorkSession = True, timerRunning = False, timerEndTime = None,
      timerAnimationFrame = False, currentDate = today, tasks = [],
      section_messages = Some [], pendingRemovals = [], pendingAutoStarts = []\<rparr>"

section \<open>Calendar\<close>

definition isDateToday :: "jsdate \<Rightarrow> jsdate \<Rightarrow> bool" where
  "isDateToday today dt =
     (getDate dt = getDate today \<and> getMonth dt = getMonth today \<and>
      getFullYear dt = getFullYear today)"

definition formatDateString :: "jsdate \<Rightarrow> jsstring" where
  "formatDateString dt =
     String_of (getFullYear dt) @ [45] @ padStart2 (String_of (getMonth dt + 1)) @ [45]
       @ padStart2 (String_of (getDate dt))"

text \<open>
  The cells that \<open>renderCalendar\<close> writes into the grid after the seven day headers: the
  first loop writes \<open>startDay\<close> empty cells, the second one cell for each day from 1 to
  \<open>daysInMonth\<close>, with its today mark and its \<open>data-date\<close>.
\<close>

datatype cell = EmptyCell | DayCell int bool jsstring

definition renderCalendar :: "zone \<Rightarrow> jsdate \<Rightarrow> view \<Rightarrow> cell list" where
  "renderCalendar z today v =
     (let year = getFullYear (currentDate v);
          month = getMonth (currentDate v);
          firstDay = new_Date z year month 1;
          lastDay = new_Date z year (month + 1) 0;
          daysInMonth = getDate lastDay;
          startDay = (if getDay firstDay = 0 then 6 else getDay firstDay - 1)
      in replicate (nat startDay) EmptyCell @
         map (\<lambda>day. DayCell day (isDateToday today (new_Date z year month day))
                       (formatDateString (new_Date z year month day)))
             [1..daysInMonth])"

text \<open>The number of empty cells at the head of a grid.\<close>

definition leading_blanks :: "cell list \<Rightarrow> nat" where
  "leading_blanks g = length (takeWhile (\<lambda>c. c = EmptyCell) g)"

text \<open>
  The month of the cursor as the calendar has it: the date of its day \<open>d\<close>, and whether the
  zone skipped none of its days.
\<close>

definition cursor_day :: "view \<Rightarrow> int \<Rightarrow> jsdate" where
  "cursor_day v d =
     \<lparr>getFullYear = getFullYear (currentDate v), getMonth = getMonth (currentDate v),
      getDate = d\<rparr>"

definition month_unskipped :: "zone \<Rightarrow> int \<Rightarrow> int \<Rightarrow> bool" where
  "month_unskipped z y m =
     list_all (\<lambda>d. map_of z \<lparr>getFullYear = y, getMonth = m, getDate = d\<rparr> = None)
       [1..days_in_month y m]"

text \<open>The click handlers of the two navigation buttons.\<close>

definition prev_month_click :: "zone \<Rightarrow> view \<Rightarrow> view" where
  "prev_month_click z v =
     v\<lparr>currentDate := setMonth z (currentDate v) (getMonth (currentDate v) - 1)\<rparr>"

definition next_month_click :: "zone \<Rightarrow> view \<Rightarrow> view" where
  "next_month_click z v =
     v\<lparr>currentDate := setMonth z (currentDate v) (getMonth (currentDate v) + 1)\<rparr>"

subsection \<open>Daily files\<close>

text \<open>
  The vault of the host: the files by path with their content, and the paths of the files
  opened in the leaf, in order. Whether \<open>vault.create\<close> or \<open>leaf.openFile\<close> throws is the
  host's choice: \<open>host_faults\<close> gives the message of the error each would throw, if any.
\<close>

record vault =
  files :: "jsstring \<rightharpoonup> jsstring"
  opened :: "jsstring list"

record host_faults =
  create_throws :: "jsstring option"
  openFile_throws :: "jsstring option"

definition show_error :: "jsstring \<Rightarrow> view \<Rightarrow> view" where
  "show_error error_message_text v =
     (case section_messages v of
        None \<Rightarrow> v
      | Some ps \<Rightarrow>
          v\<lparr>section_messages :=
              Some (ps @ [\<lparr>cls = error_message,
                          message_text = [10060] @ js '' Error creating file: '' @ error_message_text\<rparr>])\<rparr>)"

definition show_success :: "int \<Rightarrow> jsstring \<Rightarrow> view \<Rightarrow> view" where
  "show_success now fileName v =
     (case section_messages v of
        None \<Rightarrow> v
      | Some ps \<Rightarrow>
          v\<lparr>section_messages :=
              Some (ps @ [\<lparr>cls = success_message,
                          message_text = [9989] @ js '' File created: '' @ fileName\<rparr>]),
            pendingRemovals :=
              pendingRemovals v @ [(now + 3000, [9989] @ js '' File created: '' @ fileName)]\<rparr>)"

definition daily_template :: jsstring where
  "daily_template = js ''# Header 1'' @ [10, 10] @ js ''## Header 2'' @ [10, 10]
                      @ js ''### Header 3'' @ [10, 10]"

text \<open>
  \<open>createDailyFile\<close>: the whole body is inside \<open>try\<close>, and \<open>catch\<close> turns whatever was
  thrown into an error paragraph, so the function itself never throws.
\<close>

definition createDailyFile ::
    "int \<Rightarrow> host_faults \<Rightarrow> jsstring \<Rightarrow> vault \<times> view \<Rightarrow> vault \<times> view" where
  "createDailyFile now faults dateStr hv =
     (let fileName = dateStr @ js ''.md''; h = fst hv; v = snd hv in
      case files h fileName of
        Some existingFile \<Rightarrow>
          (case openFile_throws faults of
             Some m \<Rightarrow> (h, show_error m v)
           | None \<Rightarrow> (h\<lparr>opened := opened h @ [fileName]\<rparr>, v))
      | None \<Rightarrow>
          (case create_throws faults of
             Some m \<Rightarrow> (h, show_error m v)
           | None \<Rightarrow>
               (case openFile_throws faults of
                  Some m \<Rightarrow> (h\<lparr>files := (files h)(fileName \<mapsto> daily_template)\<rparr>, show_error m v)
                | None \<Rightarrow>
                    (h\<lparr>files := (files h)(fileName \<mapsto> daily_template),
                       opened := opened h @ [fileName]\<rparr>,
                     show_success now fileName v))))"

section \<open>Timer\<close>

definition pauseTimer :: "view \<Rightarrow> view" where
  "pauseTimer v =
     (if \<not> timerRunning v then v
      else v\<lparr>timerRunning := False, timerAnimationFrame := False\<rparr>)"

text \<open>
  \<open>completeTimer\<close>; \<open>now\<close> is the time of the call, from which the two seconds of
  \<open>setTimeout\<close> run. \<open>playBeepSound\<close> catches its own errors and changes no field.
\<close>

definition completeTimer :: "int \<Rightarrow> view \<Rightarrow> view" where
  "completeTimer now v =
     (let v1 = pauseTimer v;
          v2 = v1\<lparr>isWorkSession := \<not> isWorkSession v1\<rparr>;
          v3 = v2\<lparr>timeLeft := (if isWorkSession v2 then workTime v2 else breakTime v2)\<rparr>
      in v3\<lparr>pendingAutoStarts := pendingAutoStarts v3 @ [now + 2000]\<rparr>)"

text \<open>\<open>startTimer\<close>; \<open>now\<close> is \<open>Date.now()\<close>.\<close>

definition startTimer :: "int \<Rightarrow> view \<Rightarrow> view" where
  "startTimer now v =
     (if timerRunning v then v
      else v\<lparr>timerRunning := True,
             timerEndTime := Some (js_plus (Num now) (js_times (timeLeft v) (Num 1000))),
             timerAnimationFrame := True\<rparr>)"

text \<open>
  The closure \<open>tick\<close> of \<open>startTimer\<close>, run by the browser for an animation frame; \<open>now\<close>
  is \<open>Date.now()\<close>. A \<open>null\<close> end time would count as 0 in the subtraction.
\<close>

definition tick :: "int \<Rightarrow> view \<Rightarrow> view" where
  "tick now v =
     (if \<not> timerRunning v then v
      else
        let remainingMs =
              js_minus (case timerEndTime v of None \<Rightarrow> Num 0 | Some e \<Rightarrow> e) (Num now);
            remainingSec = js_max (Num 0) (round_div_1000 remainingMs)
        in if js_le remainingSec (Num 0) then completeTimer now v
           else (if js_strict_ne remainingSec (timeLeft v) then v\<lparr>timeLeft := remainingSec\<rparr>
                 else v)\<lparr>timerAnimationFrame := True\<rparr>)"

definition toggleTimer :: "int \<Rightarrow> view \<Rightarrow> view" where
  "toggleTimer now v = (if timerRunning v then pauseTimer v else startTimer now v)"

definition resetTimer :: "view \<Rightarrow> view" where
  "resetTimer v =
     (let v1 = pauseTimer v; v2 = v1\<lparr>isWorkSession := True\<rparr>
      in v2\<lparr>timeLeft := workTime v2\<rparr>)"

text \<open>
  \<open>saveTimerSettings\<close>; the first two arguments are the two input elements, \<open>None\<close> for an
  element that is missing and otherwise the element's \<open>value\<close>.
\<close>

definition saveTimerSettings :: "jsstring option \<Rightarrow> jsstring option \<Rightarrow> view \<Rightarrow> view" where
  "saveTimerSettings workInput breakInput v =
     (let v1 = (case workInput of None \<Rightarrow> v
                | Some w \<Rightarrow> v\<lparr>workTime := js_times (parseInt w) (Num 60)\<rparr>);
          v2 = (case breakInput of None \<Rightarrow> v1
                | Some b \<Rightarrow> v1\<lparr>breakTime := js_times (parseInt b) (Num 60)\<rparr>)
      in if \<not> timerRunning v2 then
           (if isWorkSession v2 then v2\<lparr>timeLeft := workTime v2\<rparr>
            else v2\<lparr>timeLeft := breakTime v2\<rparr>)
         else v2)"

text \<open>
  The callbacks that \<open>completeTimer\<close> left with \<open>setTimeout\<close> and that are due at \<open>now\<close>
  run one after the other; each calls \<open>startTimer\<close>, so the first one starts the timer and
  the others find it running.
\<close>

definition run_due_auto_starts :: "int \<Rightarrow> view \<Rightarrow> view" where
  "run_due_auto_starts now v =
     (if filter (\<lambda>t. t \<le> now) (pendingAutoStarts v) = [] then v
      else startTimer now (v\<lparr>pendingAutoStarts := filter (\<lambda>t. \<not> t \<le> now) (pendingAutoStarts v)\<rparr>))"

subsection \<open>Sequences of timer events\<close>

text \<open>
  What can happen to the timer: the clicks, the settings being saved with the two fields'
  values, an animation frame, a completion, and the browser running the auto-start
  callbacks that are due. Each event comes with the time that passed since the one
  before, in milliseconds, so the clock never runs backwards.
\<close>

datatype event = Start | Pause | Reset | Complete | Save "jsstring option" "jsstring option"
  | Tick | AutoStart

fun step :: "int \<Rightarrow> event \<Rightarrow> view \<Rightarrow> view" where
  "step now Start v = startTimer now v"
| "step now Pause v = pauseTimer v"
| "step now Reset v = resetTimer v"
| "step now Complete v = completeTimer now v"
| "step now (Save w b) v = saveTimerSettings w b v"
| "step now Tick v = tick now v"
| "step now AutoStart v = run_due_auto_starts now v"

definition timed_step :: "int \<times> view \<Rightarrow> nat \<times> event \<Rightarrow> int \<times> view" where
  "timed_step cv de = (fst cv + int (fst de), step (fst cv + int (fst de)) (snd de) (snd cv))"

definition run :: "int \<times> view \<Rightarrow> (nat \<times> event) list \<Rightarrow> int \<times> view" where
  "run cv es = foldl timed_step cv es"

subsection \<open>The range of the remaining time\<close>

text \<open>The remaining time lies between 0 and the larger of the two durations.\<close>

definition timeLeft_in_range :: "view \<Rightarrow> bool" where
  "timeLeft_in_range v =
     (js_le (Num 0) (timeLeft v) \<and> js_le (timeLeft v) (js_max (workTime v) (breakTime v)))"

text \<open>
  A sequence of events in which the settings are saved only while the timer is not
  running, and only with fields that \<open>parseInt\<close> reads as numbers that are not negative.
\<close>

definition field_not_negative :: "jsstring option \<Rightarrow> bool" where
  "field_not_negative f = (case f of None \<Rightarrow> True | Some s \<Rightarrow> js_le (Num 0) (parseInt s))"

fun event_admissible :: "view \<Rightarrow> event \<Rightarrow> bool" where
  "event_admissible v (Save w b) =
     (\<not> timerRunning v \<and> field_not_negative w \<and> field_not_negative b)"
| "event_admissible v _ = True"

fun admissible :: "int \<times> view \<Rightarrow> (nat \<times> event) list \<Rightarrow> bool" where
  "admissible cv [] = True"
| "admissible cv (de # es) =
     (event_admissible (snd cv) (snd de) \<and> admissible (timed_step cv de) es)"

text \<open>
  What the induction carries: the three numbers are integers, the durations are not
  negative, the remaining time is between 0 and the duration of the current phase, and a
  running timer ends no later than one such duration after the present time.
\<close>

definition timer_inv :: "int \<times> view \<Rightarrow> bool" where
  "timer_inv cv =
     (\<exists>k w b. timeLeft (snd cv) = Num k \<and> workTime (snd cv) = Num w \<and>
        breakTime (snd cv) = Num b \<and> 0 \<le> w \<and> 0 \<le> b \<and> 0 \<le> k \<and>
        k \<le> (if isWorkSession (snd cv) then w else b) \<and>
        (timerRunning (snd cv) \<longrightarrow>
           (\<exists>e. timerEndTime (snd cv) = Some (Num e) \<and>
                e \<le> fst cv + (if isWorkSession (snd cv) then w else b) * 1000)))"

subsection \<open>One minute of work, one minute of break\<close>

text \<open>
  The events of one phase when nobody touches the timer: animation frames while the phase
  lasts, the frame that completes it, and the auto-start callback. A cycle is given by the
  delays of the frames before the completing one, the delay of the completing frame and
  the delay of the callback after it. It is well timed for a phase of \<open>d\<close> seconds when
  the earlier frames come at least 500 ms before the end, the completing frame less than
  500 ms before the end or later, and the callback 2000 ms or more after the completion.
\<close>

definition cycle_frames :: "nat list \<times> nat \<times> nat \<Rightarrow> (nat \<times> event) list" where
  "cycle_frames c = map (\<lambda>d. (d, Tick)) (fst c) @ [(fst (snd c), Tick)]"

definition cycle_events :: "nat list \<times> nat \<times> nat \<Rightarrow> (nat \<times> event) list" where
  "cycle_events c = cycle_frames c @ [(snd (snd c), AutoStart)]"

definition cycle_timed :: "int \<Rightarrow> nat list \<times> nat \<times> nat \<Rightarrow> bool" where
  "cycle_timed d c =
     (int (sum_list (fst c)) \<le> d * 1000 - 500 \<and>
      d * 1000 - 500 < int (sum_list (fst c)) + int (fst (snd c)) \<and>
      2000 \<le> snd (snd c))"

text \<open>The settings 1 and 1 are saved at the start, then the start button is pressed.\<close>

definition one_minute_start :: "int \<Rightarrow> jsdate \<Rightarrow> int \<times> view" where
  "one_minute_start t0 today =
     (t0, startTimer t0 (saveTimerSettings (Some (js ''1'')) (Some (js ''1'')) (initial_view today)))"

text \<open>
  The two states a one-minute timer is in between the events of a cycle: a phase has just
  been started, with 60 seconds left, or it has just been completed, with the next phase
  set up and its start due in two seconds.
\<close>

definition minute_started :: "bool \<Rightarrow> int \<times> view \<Rightarrow> bool" where
  "minute_started work cv =
     (timerRunning (snd cv) \<and> timerAnimationFrame (snd cv) \<and>
      isWorkSession (snd cv) = work \<and> timeLeft (snd cv) = Num 60 \<and>
      timerEndTime (snd cv) = Some (Num (fst cv + 60000)) \<and>
      workTime (snd cv) = Num 60 \<and> breakTime (snd cv) = Num 60 \<and>
      pendingAutoStarts (snd cv) = [])"

definition minute_completed :: "bool \<Rightarrow> int \<times> view \<Rightarrow> bool" where
  "minute_completed work cv =
     (\<not> timerRunning (snd cv) \<and> isWorkSession (snd cv) = work \<and>
      timeLeft (snd cv) = Num 60 \<and> workTime (snd cv) = Num 60 \<and>
      breakTime (snd cv) = Num 60 \<and> pendingAutoStarts (snd cv) = [fst cv + 2000])"

section \<open>Task list\<close>

text \<open>
  \<open>addTask\<close> reads the input field's value, trims it and returns early when the result is
  the empty string (the only falsy string); otherwise it pushes one task. \<open>now\<close> is
  \<open>Date.now()\<close>, \<open>input_value\<close> the value of the input field, which is an element of the
  page and not a field of the view, so that clearing it is not shown here.
\<close>

definition addTask :: "int \<Rightarrow> jsstring \<Rightarrow> view \<Rightarrow> view" where
  "addTask now input_value v =
     (let task_text' = trim input_value in
      if task_text' = [] then v
      else v\<lparr>tasks := tasks v @ [\<lparr>task_id = now, task_text = task_text', completed = False\<rparr>]\<rparr>)"

text \<open>\<open>toggleTask\<close>: \<open>find\<close> returns the first task with the id; only that one is flipped.\<close>

fun toggle_first :: "int \<Rightarrow> task list \<Rightarrow> task list" where
  "toggle_first taskId [] = []"
| "toggle_first taskId (t # ts) =
     (if task_id t = taskId then t\<lparr>completed := \<not> completed t\<rparr> # ts
      else t # toggle_first taskId ts)"

definition toggleTask :: "int \<Rightarrow> view \<Rightarrow> view" where
  "toggleTask taskId v = v\<lparr>tasks := toggle_first taskId (tasks v)\<rparr>"

text \<open>\<open>deleteTask\<close>: \<open>this.tasks = this.tasks.filter(t => t.id !== taskId)\<close>.\<close>

definition deleteTask :: "int \<Rightarrow> view \<Rightarrow> view" where
  "deleteTask taskId v = v\<lparr>tasks := filter (\<lambda>t. task_id t \<noteq> taskId) (tasks v)\<rparr>"

section \<open>Example values\<close>

text \<open>A day on which the view is opened, used by the examples below.\<close>

definition date0 :: jsdate where
  "date0 = \<lparr>getFullYear = 2026, getMonth = 10, getDate = 2\<rparr>"

text \<open>The last day of a month with 31 days, before a month with fewer.\<close>

definition date_jan31 :: jsdate where
  "date_jan31 = \<lparr>getFullYear = 2023, getMonth = 0, getDate = 31\<rparr>"

text \<open>The second day of February of the year 0, 24321 months before \<open>date0\<close>.\<close>

definition date_feb_year0 :: jsdate where
  "date_feb_year0 = \<lparr>getFullYear = 0, getMonth = 1, getDate = 2\<rparr>"

text \<open>
  A zone that skipped no day, Pacific/Apia, which skipped 30 December 2011, and
  Pacific/Kiritimati, which skipped 31 December 1994.
\<close>

definition no_gaps :: zone where
  "no_gaps = []"

definition apia :: zone where
  "apia = [(\<lparr>getFullYear = 2011, getMonth = 11, getDate = 30\<rparr>, 1)]"

definition kiritimati :: zone where
  "kiritimati = [(\<lparr>getFullYear = 1994, getMonth = 11, getDate = 31\<rparr>, 1)]"

text \<open>The second day of December 1994, 383 months before \<open>date0\<close>.\<close>

definition date_dec_1994 :: jsdate where
  "date_dec_1994 = \<lparr>getFullYear = 1994, getMonth = 11, getDate = 2\<rparr>"

section \<open>Results\<close>

subsection \<open>Dates\<close>

lemma div_succ:
  fixes a k :: int
  assumes "1 < k"
  shows "(a + 1) div k = a div k + (if (a + 1) mod k = 0 then 1 else 0)"
proof -
  have r: "0 \<le> a mod k" "a mod k < k" using assms by simp_all
  have d: "(a + 1) div k = a div k + 1 div k + (a mod k + 1 mod k) div k"
    by (rule div_add1_eq)
  have one: "1 div k = 0" "1 mod k = 1" using assms by simp_all
  have m: "(a + 1) mod k = (a mod k + 1) mod k"
    by (simp add: mod_add_left_eq)
  show ?thesis
  proof (cases "a mod k + 1 = k")
    case True
    then show ?thesis using d one m assms by simp
  next
    case False
    then have lt: "a mod k + 1 < k" using r by simp
    then have "(a mod k + 1) div k = 0" "(a mod k + 1) mod k = a mod k + 1"
      using r by simp_all
    then show ?thesis using d one m r by simp
  qed
qed

lemma mod4: "((y::int) - 1969 + 1) mod 4 = y mod 4"
  using mod_mult_self2 [of y 4 "- 492"] by simp

lemma mod100: "((y::int) - 1901 + 1) mod 100 = y mod 100"
  using mod_mult_self2 [of y 100 "- 19"] by simp

lemma mod400: "((y::int) - 1601 + 1) mod 400 = y mod 400"
  using mod_mult_self2 [of y 400 "- 4"] by simp

lemma DayFromYear_Suc:
  "DayFromYear (y + 1) = DayFromYear y + 365 + (if is_leap y then 1 else 0)"
proof -
  have a: "(y - 1968) div 4 = (y - 1969) div 4 + (if y mod 4 = 0 then 1 else 0)"
    using div_succ [of 4 "y - 1969"] unfolding mod4 by simp
  have b: "(y - 1900) div 100 = (y - 1901) div 100 + (if y mod 100 = 0 then 1 else 0)"
    using div_succ [of 100 "y - 1901"] unfolding mod100 by simp
  have c: "(y - 1600) div 400 = (y - 1601) div 400 + (if y mod 400 = 0 then 1 else 0)"
    using div_succ [of 400 "y - 1601"] unfolding mod400 by simp
  have e: "DayFromYear (y + 1)
             = 365 * (y - 1969) + (y - 1968) div 4 - (y - 1900) div 100 + (y - 1600) div 400"
    by (simp add: DayFromYear_def)
  have d1: "y mod 100 = 0" if "y mod 400 = 0"
  proof -
    have "400 dvd y" using that by (simp add: mod_eq_0_iff_dvd)
    then have "100 dvd y" by (rule dvd_trans [rotated]) simp
    then show ?thesis by (simp add: mod_eq_0_iff_dvd)
  qed
  have d2: "y mod 4 = 0" if "y mod 100 = 0"
  proof -
    have "100 dvd y" using that by (simp add: mod_eq_0_iff_dvd)
    then have "4 dvd y" by (rule dvd_trans [rotated]) simp
    then show ?thesis by (simp add: mod_eq_0_iff_dvd)
  qed
  show ?thesis
  proof (cases "y mod 4 = 0")
    case False
    then have h: "y mod 100 \<noteq> 0" using d2 by auto
    then have "y mod 400 \<noteq> 0" using d1 by auto
    then show ?thesis using False h unfolding e a b c by (simp add: DayFromYear_def is_leap_def)
  next
    case four: True
    show ?thesis
    proof (cases "y mod 100 = 0")
      case False
      then have "y mod 400 \<noteq> 0" using d1 by auto
      then show ?thesis using four False unfolding e a b c by (simp add: DayFromYear_def is_leap_def)
    next
      case True
      then show ?thesis using four unfolding e a b c by (simp add: DayFromYear_def is_leap_def)
    qed
  qed
qed

lemma month_cases:
  fixes m :: int
  assumes "0 \<le> m" "m \<le> 11"
  shows "m = 0 \<or> m = 1 \<or> m = 2 \<or> m = 3 \<or> m = 4 \<or> m = 5 \<or> m = 6 \<or> m = 7 \<or> m = 8 \<or>
         m = 9 \<or> m = 10 \<or> m = 11"
  using assms by presburger

lemma month_start_next:
  assumes "0 \<le> m" "m \<le> 10"
  shows "month_start y (m + 1) = month_start y m + days_in_month y m"
proof -
  have "m = 0 \<or> m = 1 \<or> m = 2 \<or> m = 3 \<or> m = 4 \<or> m = 5 \<or> m = 6 \<or> m = 7 \<or> m = 8 \<or>
        m = 9 \<or> m = 10 \<or> m = 11"
    using assms by (intro month_cases) simp_all
  then show ?thesis
    using assms(2) by (elim disjE) (simp_all add: month_start_def days_in_month_def)
qed

lemma month_start_december:
  "month_start y 11 + days_in_month y 11 = 365 + (if is_leap y then 1 else 0)"
  by (simp add: month_start_def days_in_month_def)

text \<open>
  Carrying days over the months keeps the day number, so the date that \<open>MakeDay\<close> gives
  is the one whose day number ECMAScript computes, and it is a date of the calendar.
\<close>

lemma carry_days_Day:
  "0 \<le> m \<Longrightarrow> m \<le> 11 \<Longrightarrow>
   Day (carry_days y m d) = DayFromYear y + month_start y m + d - 1 \<and>
   valid_date (carry_days y m d)"
proof (induction y m d rule: carry_days.induct)
  case (1 y m d)
  let ?py = "if m = 0 then y - 1 else y"
  let ?pm = "if m = 0 then 11 else m - 1"
  let ?ny = "if m = 11 then y + 1 else y"
  let ?nm = "if m = 11 then 0 else m + 1"
  show ?case
  proof (cases "d < 1")
    case True
    have ih: "Day (carry_days ?py ?pm (d + days_in_month ?py ?pm))
                = DayFromYear ?py + month_start ?py ?pm + (d + days_in_month ?py ?pm) - 1 \<and>
              valid_date (carry_days ?py ?pm (d + days_in_month ?py ?pm))"
      using "1.IH"(1) [OF True] "1.prems" by simp
    have step: "carry_days y m d = carry_days ?py ?pm (d + days_in_month ?py ?pm)"
      using True by (subst carry_days.simps) simp
    have "DayFromYear ?py + month_start ?py ?pm + days_in_month ?py ?pm
            = DayFromYear y + month_start y m"
    proof (cases "m = 0")
      case True
      have "DayFromYear y = DayFromYear (y - 1) + 365 + (if is_leap (y - 1) then 1 else 0)"
        using DayFromYear_Suc [of "y - 1"] by simp
      then show ?thesis
        using True month_start_december [of "y - 1"] by (simp add: month_start_def)
    next
      case False
      then have "month_start y (m - 1 + 1) = month_start y (m - 1) + days_in_month y (m - 1)"
        using "1.prems" by (intro month_start_next) simp_all
      then show ?thesis using False by simp
    qed
    then show ?thesis
      unfolding step using ih by simp
  next
    case False
    show ?thesis
    proof (cases "days_in_month y m < d")
      case True
      have ih: "Day (carry_days ?ny ?nm (d - days_in_month y m))
                  = DayFromYear ?ny + month_start ?ny ?nm + (d - days_in_month y m) - 1 \<and>
                valid_date (carry_days ?ny ?nm (d - days_in_month y m))"
        using "1.IH"(2) [OF False True] "1.prems" by simp
      have step: "carry_days y m d = carry_days ?ny ?nm (d - days_in_month y m)"
        using False True by (subst carry_days.simps) simp
      have "DayFromYear ?ny + month_start ?ny ?nm
              = DayFromYear y + month_start y m + days_in_month y m"
      proof (cases "m = 11")
        case True
        then show ?thesis
          using DayFromYear_Suc [of y] month_start_december [of y]
          by (simp add: month_start_def)
      next
        case False
        then have "month_start y (m + 1) = month_start y m + days_in_month y m"
          using "1.prems" by (intro month_start_next) simp_all
        then show ?thesis using False by simp
      qed
      then show ?thesis
        unfolding step using ih by simp
    next
      case inside: False
      have "carry_days y m d = \<lparr>getFullYear = y, getMonth = m, getDate = d\<rparr>"
        using False inside by (subst carry_days.simps) simp
      then show ?thesis
        using False inside "1.prems" by (simp add: Day_def valid_date_def)
    qed
  qed
qed

lemma trim_js_empty: "trim (js '''') = []"
  by (simp add: trim_def js_def)

lemma trim_js_blanks: "trim (js ''   '') = []"
  by (simp add: trim_def js_def is_white_space_def)

lemma trim_js_buy_milk: "trim (js ''buy milk'') = js ''buy milk''"
  by (simp add: trim_def js_def is_white_space_def)

lemma js_buy_milk_nonempty: "js ''buy milk'' \<noteq> []"
  by (simp add: js_def)

lemma tasks_initial_view: "tasks (initial_view today) = []"
  by (simp add: initial_view_def)

text \<open>
  C7. \<open>addTask\<close> trims the value of the input field. When the trimmed text is empty the
  view is left as it was. Otherwise exactly one task, with the id \<open>now\<close>, the trimmed
  text and \<open>completed = false\<close>, is appended at the end of the list, whose length grows
  by one. If no stored task had an empty text before, none has one afterwards.
\<close>

theorem addTask_appends_trimmed:
  "(trim s = [] \<longrightarrow> addTask now s v = v) \<and>
   (trim s \<noteq> [] \<longrightarrow>
      tasks (addTask now s v)
        = tasks v @ [\<lparr>task_id = now, task_text = trim s, completed = False\<rparr>] \<and>
      length (tasks (addTask now s v)) = length (tasks v) + 1) \<and>
   ((\<forall>t \<in> set (tasks v). task_text t \<noteq> []) \<longrightarrow>
      (\<forall>t \<in> set (tasks (addTask now s v)). task_text t \<noteq> []))"
  by (auto simp: addTask_def Let_def)

theorem addTask_appends_trimmed_witness:
  "addTask 5 (js '''') (initial_view date0) = initial_view date0 \<and>
   addTask 5 (js ''   '') (initial_view date0) = initial_view date0 \<and>
   tasks (addTask 5 (js ''buy milk'') (initial_view date0))
     = [\<lparr>task_id = 5, task_text = js ''buy milk'', completed = False\<rparr>] \<and>
   length (tasks (addTask 5 (js ''buy milk'') (initial_view date0))) = 1"
proof -
  have a: "addTask 5 (js '''') (initial_view date0) = initial_view date0"
    using addTask_appends_trimmed [of "js ''''" 5 "initial_view date0"] trim_js_empty
    by blast
  have b: "addTask 5 (js ''   '') (initial_view date0) = initial_view date0"
    using addTask_appends_trimmed [of "js ''   ''" 5 "initial_view date0"] trim_js_blanks
    by blast
  have "trim (js ''buy milk'') \<noteq> []"
    by (simp only: trim_js_buy_milk js_buy_milk_nonempty not_False_eq_True)
  then have c: "tasks (addTask 5 (js ''buy milk'') (initial_view date0))
        = tasks (initial_view date0)
            @ [\<lparr>task_id = 5, task_text = trim (js ''buy milk''), completed = False\<rparr>]"
    using addTask_appends_trimmed [of "js ''buy milk''" 5 "initial_view date0"] by blast
  have d: "tasks (addTask 5 (js ''buy milk'') (initial_view date0))
        = [\<lparr>task_id = 5, task_text = js ''buy milk'', completed = False\<rparr>]"
    by (simp only: c tasks_initial_view trim_js_buy_milk append_Nil)
  show ?thesis
    unfolding d using a b by simp
qed

text \<open>
  What \<open>deleteTask\<close> does while the ids are distinct: it removes the one task with the id,
  and nothing when no task has it.
\<close>

lemma filter_other_ids_absent:
  "taskId \<notin> task_id ` set ts \<Longrightarrow> filter (\<lambda>t. task_id t \<noteq> taskId) ts = ts"
  by (induction ts) auto

lemma filter_other_ids_unique:
  "distinct (map task_id ts) \<Longrightarrow> taskId \<in> task_id ` set ts \<Longrightarrow>
   length (filter (\<lambda>t. task_id t \<noteq> taskId) ts) + 1 = length ts"
proof (induction ts)
  case Nil
  then show ?case by simp
next
  case (Cons t ts)
  show ?case
  proof (cases "task_id t = taskId")
    case True
    then have "taskId \<notin> task_id ` set ts"
      using Cons.prems(1) by auto
    then have "filter (\<lambda>t. task_id t \<noteq> taskId) ts = ts"
      by (rule filter_other_ids_absent)
    then show ?thesis using True by simp
  next
    case False
    then have "taskId \<in> task_id ` set ts"
      using Cons.prems(2) by auto
    then have "length (filter (\<lambda>t. task_id t \<noteq> taskId) ts) + 1 = length ts"
      using Cons.IH Cons.prems(1) by simp
    then show ?thesis using False by simp
  qed
qed

lemma deleteTask_absent:
  "taskId \<notin> task_id ` set (tasks v) \<Longrightarrow> deleteTask taskId v = v"
  by (simp add: deleteTask_def filter_other_ids_absent)

lemma deleteTask_distinct_ids:
  "distinct (map task_id (tasks v)) \<Longrightarrow> taskId \<in> task_id ` set (tasks v) \<Longrightarrow>
   length (tasks (deleteTask taskId v)) + 1 = length (tasks v)"
  using filter_other_ids_unique [of "tasks v" taskId] by (simp add: deleteTask_def)

text \<open>
  C6. Two tasks added within the same millisecond carry the same id, and \<open>deleteTask\<close>
  with that id removes both of them, not only the first: the list of two becomes empty.
\<close>

theorem deleteTask_shared_id_removes_both:
  "tasks (addTask 1000 (js ''b'') (addTask 1000 (js ''a'') (initial_view date0)))
     = [\<lparr>task_id = 1000, task_text = js ''a'', completed = False\<rparr>,
        \<lparr>task_id = 1000, task_text = js ''b'', completed = False\<rparr>] \<and>
   tasks (deleteTask 1000
            (addTask 1000 (js ''b'') (addTask 1000 (js ''a'') (initial_view date0)))) = []"
  by (simp add: addTask_def deleteTask_def trim_def js_def is_white_space_def initial_view_def)

lemma parseInt_25: "parseInt (js ''25'') = Num 25"
  by (simp add: parseInt_def js_def is_white_space_def is_digit_def digits_value_def)

lemma parseInt_5: "parseInt (js ''5'') = Num 5"
  by (simp add: parseInt_def js_def is_white_space_def is_digit_def digits_value_def)

lemma parseInt_1: "parseInt (js ''1'') = Num 1"
  by (simp add: parseInt_def js_def is_white_space_def is_digit_def digits_value_def)

lemma parseInt_500: "parseInt (js ''500'') = Num 500"
  by (simp add: parseInt_def js_def is_white_space_def is_digit_def digits_value_def)

lemma parseInt_minus_3: "parseInt (js ''-3'') = Num (- 3)"
  by (simp add: parseInt_def js_def is_white_space_def is_digit_def digits_value_def)

lemma parseInt_abc: "parseInt (js ''abc'') = NaN"
  by (simp add: parseInt_def js_def is_white_space_def is_digit_def digits_value_def)

lemma parseInt_empty: "parseInt (js '''') = NaN"
  by (simp add: parseInt_def js_def is_white_space_def is_digit_def digits_value_def)

text \<open>\<open>parseInt\<close> reads back what \<open>String\<close> writes.\<close>

lemma digits_of_all_digits: "\<forall>c \<in> set (digits_of n). is_digit c"
proof (induction n rule: digits_of.induct)
  case (1 n)
  show ?case
  proof (cases "n < 10")
    case True
    then show ?thesis by (subst digits_of.simps) (simp add: is_digit_def)
  next
    case False
    have "n mod 10 < 10" by simp
    then have "is_digit (48 + n mod 10)" unfolding is_digit_def by linarith
    then show ?thesis using 1 False by (subst digits_of.simps) simp
  qed
qed

lemma digits_of_nonempty: "digits_of n \<noteq> []"
  by (subst digits_of.simps) simp

lemma digits_value_snoc: "digits_value (ds @ [c]) = digits_value ds * 10 + (int c - 48)"
  by (simp add: digits_value_def)

lemma digits_value_digits_of: "digits_value (digits_of n) = int n"
proof (induction n rule: digits_of.induct)
  case (1 n)
  show ?case
  proof (cases "n < 10")
    case True
    then show ?thesis by (subst digits_of.simps) (simp add: digits_value_def)
  next
    case False
    have "digits_value (digits_of n) = digits_value (digits_of (n div 10) @ [48 + n mod 10])"
      using False by (subst digits_of.simps) simp
    also have "\<dots> = int (n div 10) * 10 + int (n mod 10)"
      using 1 False by (simp add: digits_value_snoc)
    also have "\<dots> = int n"
      by (simp add: zdiv_int zmod_int)
    finally show ?thesis .
  qed
qed

lemma digit_not_white: "is_digit c \<Longrightarrow> \<not> is_white_space c"
  by (auto simp: is_digit_def is_white_space_def)

lemma hd_digits_of_digit: "is_digit (hd (digits_of n))"
  using digits_of_all_digits [of n] digits_of_nonempty [of n] by (cases "digits_of n") auto

lemma parseInt_digits_of: "parseInt (digits_of n) = Num (int n)"
proof -
  have h: "is_digit (hd (digits_of n))" by (rule hd_digits_of_digit)
  have ne: "digits_of n \<noteq> []" by (rule digits_of_nonempty)
  have w: "dropWhile is_white_space (digits_of n) = digits_of n"
    using h ne digit_not_white by (cases "digits_of n") auto
  have s: "hd (digits_of n) \<noteq> 45" "hd (digits_of n) \<noteq> 43"
    using h by (auto simp: is_digit_def)
  have t: "takeWhile is_digit (digits_of n) = digits_of n"
    using digits_of_all_digits [of n] by (simp add: takeWhile_eq_all_conv)
  show ?thesis
    using ne by (simp add: parseInt_def Let_def w s t digits_value_digits_of)
qed

lemma parseInt_String_of: "parseInt (String_of i) = Num i"
proof (cases "i < 0")
  case False
  then show ?thesis by (simp add: String_of_def parseInt_digits_of)
next
  case True
  have ne: "digits_of (nat (- i)) \<noteq> []" by (rule digits_of_nonempty)
  have t: "takeWhile is_digit (digits_of (nat (- i))) = digits_of (nat (- i))"
    using digits_of_all_digits [of "nat (- i)"] by (simp add: takeWhile_eq_all_conv)
  have "parseInt (45 # digits_of (nat (- i))) = Num (- 1 * digits_value (digits_of (nat (- i))))"
    using ne by (simp add: parseInt_def Let_def is_white_space_def t)
  then show ?thesis using True by (simp add: String_of_def digits_value_digits_of)
qed

lemma round_div_1000_round: "(x + 500) div 1000 = round (real_of_int x / 1000)"
proof -
  have h: "real_of_int x / 1000 + 1 / 2 = real_of_int (x + 500) / real_of_int 1000"
    by (simp add: field_simps)
  have "round (real_of_int x / 1000) = \<lfloor>real_of_int x / 1000 + 1 / 2\<rfloor>"
    by (simp only: round_def)
  also have "\<dots> = \<lfloor>real_of_int (x + 500) / real_of_int 1000\<rfloor>"
    by (simp only: h)
  also have "\<dots> = (x + 500) div 1000"
    by (rule floor_divide_of_int_eq)
  finally show ?thesis by simp
qed

lemma tick_not_running: "\<not> timerRunning v \<Longrightarrow> tick t v = v"
  by (simp add: tick_def)

lemma tick_completes:
  assumes "timerRunning v" "timerEndTime v = Some (Num e)" "(e - t + 500) div 1000 \<le> 0"
  shows "tick t v = completeTimer t v"
  using assms by (simp add: tick_def Let_def max_def)

lemma tick_counts:
  assumes "timerRunning v" "timerEndTime v = Some (Num e)" "0 < (e - t + 500) div 1000"
  shows "tick t v = v\<lparr>timeLeft := Num ((e - t + 500) div 1000), timerAnimationFrame := True\<rparr>"
proof (cases "timeLeft v = Num ((e - t + 500) div 1000)")
  case True
  then have "v\<lparr>timeLeft := Num ((e - t + 500) div 1000)\<rparr> = v"
    by simp
  then show ?thesis using assms True by (simp add: tick_def Let_def max_def)
next
  case False
  then have "js_strict_ne (Num ((e - t + 500) div 1000)) (timeLeft v)"
    by (cases "timeLeft v") auto
  then show ?thesis using assms by (simp add: tick_def Let_def max_def)
qed

text \<open>
  C2. \<open>startTimer\<close> changes nothing when the timer is running. Otherwise it marks the timer
  running and sets the end time to \<open>now + timeLeft * 1000\<close>. A tick of a running timer
  whose end time is \<open>e\<close> computes \<open>max 0 (round ((e - t) / 1000))\<close>: when this is 0 the
  tick is \<open>completeTimer\<close>, and otherwise it becomes the remaining time.
\<close>

theorem startTimer_end_time_and_tick:
  "(timerRunning v \<longrightarrow> startTimer now v = v) \<and>
   (\<not> timerRunning v \<longrightarrow>
      startTimer now v
        = v\<lparr>timerRunning := True,
            timerEndTime := Some (js_plus (Num now) (js_times (timeLeft v) (Num 1000))),
            timerAnimationFrame := True\<rparr>) \<and>
   (\<not> timerRunning v \<and> timeLeft v = Num k \<longrightarrow>
      timerEndTime (startTimer now v) = Some (Num (now + k * 1000))) \<and>
   (timerRunning v \<and> timerEndTime v = Some (Num e) \<and>
      max 0 (round (real_of_int (e - t) / 1000)) = 0 \<longrightarrow>
        tick t v = completeTimer t v) \<and>
   (timerRunning v \<and> timerEndTime v = Some (Num e) \<and>
      max 0 (round (real_of_int (e - t) / 1000)) \<noteq> 0 \<longrightarrow>
        tick t v = v\<lparr>timeLeft := Num (max 0 (round (real_of_int (e - t) / 1000))),
                     timerAnimationFrame := True\<rparr>)"
proof -
  have r: "round (real_of_int (e - t) / 1000) = (e - t + 500) div 1000"
    by (rule round_div_1000_round [symmetric])
  have a: "timerRunning v \<longrightarrow> startTimer now v = v"
    by (simp add: startTimer_def)
  have b: "\<not> timerRunning v \<longrightarrow>
      startTimer now v
        = v\<lparr>timerRunning := True,
            timerEndTime := Some (js_plus (Num now) (js_times (timeLeft v) (Num 1000))),
            timerAnimationFrame := True\<rparr>"
    by (simp add: startTimer_def)
  have c: "\<not> timerRunning v \<and> timeLeft v = Num k \<longrightarrow>
      timerEndTime (startTimer now v) = Some (Num (now + k * 1000))"
    by (simp add: startTimer_def)
  have d: "timerRunning v \<and> timerEndTime v = Some (Num e) \<and>
      max 0 (round (real_of_int (e - t) / 1000)) = 0 \<longrightarrow> tick t v = completeTimer t v"
    unfolding r using tick_completes [of v e t] by (simp add: max_def split: if_splits)
  have e: "timerRunning v \<and> timerEndTime v = Some (Num e) \<and>
      max 0 (round (real_of_int (e - t) / 1000)) \<noteq> 0 \<longrightarrow>
        tick t v = v\<lparr>timeLeft := Num (max 0 (round (real_of_int (e - t) / 1000))),
                     timerAnimationFrame := True\<rparr>"
    unfolding r using tick_counts [of v e t] by (simp add: max_def split: if_splits)
  show ?thesis using a b c d e by blast
qed

lemma started_initial_view:
  "startTimer 1000 (initial_view date0)
     = (initial_view date0)\<lparr>timerRunning := True, timerEndTime := Some (Num 2401000),
                             timerAnimationFrame := True\<rparr>"
  by (simp add: startTimer_def initial_view_def)

theorem startTimer_end_time_and_tick_witness:
  "timerEndTime (startTimer 1000 (initial_view date0)) = Some (Num 2401000) \<and>
   startTimer 5000 (startTimer 1000 (initial_view date0)) = startTimer 1000 (initial_view date0) \<and>
   tick 3000 (startTimer 1000 (initial_view date0))
     = (startTimer 1000 (initial_view date0))\<lparr>timeLeft := Num 2398, timerAnimationFrame := True\<rparr> \<and>
   tick 2400600 (startTimer 1000 (initial_view date0))
     = completeTimer 2400600 (startTimer 1000 (initial_view date0))"
proof -
  have n: "\<not> timerRunning (initial_view date0)" "timeLeft (initial_view date0) = Num 2400"
    by (simp_all add: initial_view_def)
  have r: "timerRunning (startTimer 1000 (initial_view date0))"
    "timerEndTime (startTimer 1000 (initial_view date0)) = Some (Num 2401000)"
    by (simp_all add: started_initial_view)
  have r1: "round (real_of_int (2401000 - 3000) / 1000) = 2398"
    by (simp only: round_div_1000_round [symmetric])
  have r2: "round (real_of_int (2401000 - 2400600) / 1000) = 0"
    by (simp only: round_div_1000_round [symmetric])
  have a: "timerEndTime (startTimer 1000 (initial_view date0)) = Some (Num 2401000)"
    using startTimer_end_time_and_tick [of "initial_view date0" 1000 2400 0 0] n by simp
  have b: "startTimer 5000 (startTimer 1000 (initial_view date0))
             = startTimer 1000 (initial_view date0)"
    using startTimer_end_time_and_tick [of "startTimer 1000 (initial_view date0)" 5000 0 0 0] r
    by blast
  have c: "tick 3000 (startTimer 1000 (initial_view date0))
     = (startTimer 1000 (initial_view date0))\<lparr>timeLeft := Num 2398, timerAnimationFrame := True\<rparr>"
    using startTimer_end_time_and_tick
            [of "startTimer 1000 (initial_view date0)" 0 0 2401000 3000] r
    unfolding r1 by simp
  have d: "tick 2400600 (startTimer 1000 (initial_view date0))
     = completeTimer 2400600 (startTimer 1000 (initial_view date0))"
    using startTimer_end_time_and_tick
            [of "startTimer 1000 (initial_view date0)" 0 0 2401000 2400600] r
    unfolding r2 by simp
  show ?thesis using a b c d by blast
qed

lemma saveTimerSettings_fields:
  "workTime (saveTimerSettings (Some w) (Some b) v) = js_times (parseInt w) (Num 60)"
  "breakTime (saveTimerSettings (Some w) (Some b) v) = js_times (parseInt b) (Num 60)"
  "timeLeft (saveTimerSettings (Some w) (Some b) v)
     = (if timerRunning v then timeLeft v
        else if isWorkSession v then js_times (parseInt w) (Num 60)
        else js_times (parseInt b) (Num 60))"
  by (simp_all add: saveTimerSettings_def Let_def)

lemma saveTimerSettings_not_running:
  "\<not> timerRunning v \<Longrightarrow>
   saveTimerSettings (Some w) (Some b) v
     = v\<lparr>workTime := js_times (parseInt w) (Num 60),
         breakTime := js_times (parseInt b) (Num 60),
         timeLeft := (if isWorkSession v then js_times (parseInt w) (Num 60)
                      else js_times (parseInt b) (Num 60))\<rparr>"
  by (simp add: saveTimerSettings_def Let_def)

text \<open>
  C5. When the timer is not running, saving the settings with the fields showing
  \<open>workMinutes\<close> and \<open>breakMinutes\<close> sets both durations (in seconds) and resets the
  remaining time to the new duration of the current phase. With 25 and 5 in the work phase
  the remaining time becomes 1500.
\<close>

theorem saveTimerSettings_resets_when_idle:
  "\<not> timerRunning v \<longrightarrow>
     saveTimerSettings (Some (String_of workMinutes)) (Some (String_of breakMinutes)) v
       = v\<lparr>workTime := Num (workMinutes * 60), breakTime := Num (breakMinutes * 60),
           timeLeft := Num (if isWorkSession v then workMinutes * 60 else breakMinutes * 60)\<rparr>"
  by (simp add: saveTimerSettings_not_running parseInt_String_of)

lemma String_of_25: "String_of 25 = js ''25''"
  by (simp add: String_of_def js_def digits_of.simps [of 25] digits_of.simps [of 2])

lemma String_of_5: "String_of 5 = js ''5''"
  by (simp add: String_of_def js_def digits_of.simps [of 5])

theorem saveTimerSettings_resets_when_idle_witness:
  "saveTimerSettings (Some (js ''25'')) (Some (js ''5'')) (initial_view date0)
     = (initial_view date0)\<lparr>workTime := Num 1500, breakTime := Num 300, timeLeft := Num 1500\<rparr>"
proof -
  have n: "\<not> timerRunning (initial_view date0)" "isWorkSession (initial_view date0)"
    by (simp_all add: initial_view_def)
  show ?thesis
    using saveTimerSettings_resets_when_idle [of "initial_view date0" 25 5] n
    by (simp add: String_of_25 String_of_5)
qed

text \<open>
  C10. \<open>saveTimerSettings\<close> stores \<open>parseInt(value, 10) * 60\<close> whatever the fields hold,
  and copies it into the remaining time when the timer is not running. So a field without
  digits gives \<open>NaN\<close>, the field \<open>500\<close> gives 30000 seconds, above the 180 minutes of
  the input's \<open>max\<close>, and the field \<open>-3\<close> gives a negative duration.
\<close>

theorem saveTimerSettings_stores_unchecked:
  "workTime (saveTimerSettings (Some w) (Some b) v) = js_times (parseInt w) (Num 60) \<and>
   breakTime (saveTimerSettings (Some w) (Some b) v) = js_times (parseInt b) (Num 60) \<and>
   (\<not> timerRunning v \<longrightarrow>
      timeLeft (saveTimerSettings (Some w) (Some b) v)
        = (if isWorkSession v then js_times (parseInt w) (Num 60)
           else js_times (parseInt b) (Num 60))) \<and>
   workTime (saveTimerSettings (Some (js ''abc'')) (Some (js '''')) (initial_view date0)) = NaN \<and>
   breakTime (saveTimerSettings (Some (js ''abc'')) (Some (js '''')) (initial_view date0)) = NaN \<and>
   timeLeft (saveTimerSettings (Some (js ''abc'')) (Some (js '''')) (initial_view date0)) = NaN \<and>
   workTime (saveTimerSettings (Some (js ''500'')) (Some (js ''-3'')) (initial_view date0))
     = Num 30000 \<and>
   breakTime (saveTimerSettings (Some (js ''500'')) (Some (js ''-3'')) (initial_view date0))
     = Num (- 180) \<and>
   timeLeft (saveTimerSettings (Some (js ''500'')) (Some (js ''-3'')) (initial_view date0))
     = Num 30000 \<and>
   \<not> js_le (workTime (saveTimerSettings (Some (js ''500'')) (Some (js ''-3''))
                           (initial_view date0))) (Num (180 * 60)) \<and>
   \<not> js_le (Num (1 * 60))
           (breakTime (saveTimerSettings (Some (js ''500'')) (Some (js ''-3''))
                         (initial_view date0)))"
  by (simp add: saveTimerSettings_fields parseInt_abc parseInt_empty parseInt_500
        parseInt_minus_3 initial_view_def)

theorem saveTimerSettings_stores_unchecked_witness:
  "timeLeft (saveTimerSettings (Some (js ''500'')) (Some (js ''1'')) (initial_view date0))
     = Num 30000 \<and>
   timeLeft (saveTimerSettings (Some (js ''abc'')) (Some (js ''1'')) (initial_view date0)) = NaN"
proof -
  have n: "\<not> timerRunning (initial_view date0)" "isWorkSession (initial_view date0)"
    by (simp_all add: initial_view_def)
  show ?thesis
    using saveTimerSettings_stores_unchecked [of "js ''500''" "js ''1''" "initial_view date0"]
      saveTimerSettings_stores_unchecked [of "js ''abc''" "js ''1''" "initial_view date0"] n
    by (simp add: parseInt_500 parseInt_abc)
qed

subsection \<open>The remaining time stays in its range\<close>

lemma timer_inv_initial: "timer_inv (t0, initial_view today)"
  by (simp add: timer_inv_def initial_view_def)

lemma timer_invI:
  assumes "timeLeft v = Num k" "workTime v = Num w" "breakTime v = Num b"
    "0 \<le> w" "0 \<le> b" "0 \<le> k" "k \<le> (if isWorkSession v then w else b)"
    "timerRunning v \<Longrightarrow>
       \<exists>e. timerEndTime v = Some (Num e) \<and> e \<le> t + (if isWorkSession v then w else b) * 1000"
  shows "timer_inv (t, v)"
  unfolding timer_inv_def using assms by auto

lemma timer_invE:
  assumes "timer_inv (t, v)"
  obtains k w b where "timeLeft v = Num k" "workTime v = Num w" "breakTime v = Num b"
    "0 \<le> w" "0 \<le> b" "0 \<le> k" "k \<le> (if isWorkSession v then w else b)"
    "timerRunning v \<longrightarrow>
       (\<exists>e. timerEndTime v = Some (Num e) \<and> e \<le> t + (if isWorkSession v then w else b) * 1000)"
  using assms unfolding timer_inv_def by auto

lemma timer_inv_later:
  assumes "timer_inv (t, v)" "t \<le> t'"
  shows "timer_inv (t', v)"
proof -
  from assms(1) obtain k w b where v: "timeLeft v = Num k" "workTime v = Num w"
      "breakTime v = Num b" "0 \<le> w" "0 \<le> b" "0 \<le> k"
      "k \<le> (if isWorkSession v then w else b)"
      "timerRunning v \<longrightarrow>
         (\<exists>e. timerEndTime v = Some (Num e) \<and> e \<le> t + (if isWorkSession v then w else b) * 1000)"
    by (rule timer_invE)
  show ?thesis
  proof (rule timer_invI [OF v(1-7)])
    assume "timerRunning v"
    then obtain e where "timerEndTime v = Some (Num e)"
        "e \<le> t + (if isWorkSession v then w else b) * 1000"
      using v(8) by blast
    then show "\<exists>e. timerEndTime v = Some (Num e) \<and>
                 e \<le> t' + (if isWorkSession v then w else b) * 1000"
      using assms(2) by auto
  qed
qed

lemma timer_inv_not_running:
  assumes "timeLeft v = Num (if isWorkSession v then w else b)" "workTime v = Num w"
    "breakTime v = Num b" "0 \<le> w" "0 \<le> b" "\<not> timerRunning v"
  shows "timer_inv (t, v)"
  using assms by (intro timer_invI [of v "if isWorkSession v then w else b" w b]) simp_all

lemma timer_inv_pauseTimer:
  assumes "timer_inv (t, v)"
  shows "timer_inv (t, pauseTimer v)"
proof (cases "timerRunning v")
  case False
  then show ?thesis using assms by (simp add: pauseTimer_def)
next
  case True
  from assms obtain k w b where v: "timeLeft v = Num k" "workTime v = Num w"
      "breakTime v = Num b" "0 \<le> w" "0 \<le> b" "0 \<le> k"
      "k \<le> (if isWorkSession v then w else b)"
    by (rule timer_invE)
  have eq: "pauseTimer v = v\<lparr>timerRunning := False, timerAnimationFrame := False\<rparr>"
    using True by (simp add: pauseTimer_def)
  show ?thesis
    unfolding eq using v by (intro timer_invI [of _ k w b]) simp_all
qed

lemma timer_inv_startTimer:
  assumes "timer_inv (t, v)"
  shows "timer_inv (t, startTimer t v)"
proof (cases "timerRunning v")
  case True
  then show ?thesis using assms by (simp add: startTimer_def)
next
  case False
  from assms obtain k w b where v: "timeLeft v = Num k" "workTime v = Num w"
      "breakTime v = Num b" "0 \<le> w" "0 \<le> b" "0 \<le> k"
      "k \<le> (if isWorkSession v then w else b)"
    by (rule timer_invE)
  have eq: "startTimer t v = v\<lparr>timerRunning := True, timerEndTime := Some (Num (t + k * 1000)),
                                   timerAnimationFrame := True\<rparr>"
    using False v(1) by (simp add: startTimer_def)
  show ?thesis
    unfolding eq using v by (intro timer_invI [of _ k w b]) simp_all
qed

lemma timer_inv_resetTimer:
  assumes "timer_inv (t, v)"
  shows "timer_inv (t, resetTimer v)"
proof -
  have p: "timer_inv (t, pauseTimer v)"
    using assms by (rule timer_inv_pauseTimer)
  from p obtain k w b where v: "workTime (pauseTimer v) = Num w"
      "breakTime (pauseTimer v) = Num b" "0 \<le> w" "0 \<le> b" "timeLeft (pauseTimer v) = Num k"
    by (rule timer_invE)
  have nr: "\<not> timerRunning (pauseTimer v)"
    by (simp add: pauseTimer_def)
  have eq: "resetTimer v = (pauseTimer v)\<lparr>isWorkSession := True, timeLeft := Num w\<rparr>"
    using v(1) by (simp add: resetTimer_def Let_def)
  show ?thesis
    unfolding eq using v nr by (intro timer_inv_not_running [of _ w b]) simp_all
qed

lemma timer_inv_completeTimer:
  assumes "timer_inv (t, v)"
  shows "timer_inv (t, completeTimer t' v)"
proof -
  have p: "timer_inv (t, pauseTimer v)"
    using assms by (rule timer_inv_pauseTimer)
  from p obtain k w b where v: "workTime (pauseTimer v) = Num w"
      "breakTime (pauseTimer v) = Num b" "0 \<le> w" "0 \<le> b" "timeLeft (pauseTimer v) = Num k"
    by (rule timer_invE)
  have nr: "\<not> timerRunning (pauseTimer v)"
    by (simp add: pauseTimer_def)
  have eq: "completeTimer t' v
              = (pauseTimer v)\<lparr>isWorkSession := \<not> isWorkSession (pauseTimer v),
                    timeLeft := (if isWorkSession (pauseTimer v) then Num b else Num w),
                    pendingAutoStarts := pendingAutoStarts (pauseTimer v) @ [t' + 2000]\<rparr>"
    using v(1,2) by (simp add: completeTimer_def Let_def)
  show ?thesis
    unfolding eq using v nr by (intro timer_inv_not_running [of _ w b]) simp_all
qed

lemma field_not_negative_times:
  "field_not_negative (Some s) \<Longrightarrow> \<exists>n. js_times (parseInt s) (Num 60) = Num n \<and> 0 \<le> n"
  unfolding field_not_negative_def by (cases "parseInt s") auto

lemma timer_inv_saveTimerSettings:
  assumes "timer_inv (t, v)" "\<not> timerRunning v" "field_not_negative w" "field_not_negative b"
  shows "timer_inv (t, saveTimerSettings w b v)"
proof -
  from assms(1) obtain k w0 b0 where v: "timeLeft v = Num k" "workTime v = Num w0"
      "breakTime v = Num b0" "0 \<le> w0" "0 \<le> b0"
    by (rule timer_invE)
  obtain w1 where w1: "(case w of None \<Rightarrow> workTime v | Some s \<Rightarrow> js_times (parseInt s) (Num 60))
                         = Num w1" "0 \<le> w1"
    using v assms(3) field_not_negative_times by (cases w) auto
  obtain b1 where b1: "(case b of None \<Rightarrow> breakTime v | Some s \<Rightarrow> js_times (parseInt s) (Num 60))
                         = Num b1" "0 \<le> b1"
    using v assms(4) field_not_negative_times by (cases b) auto
  have "saveTimerSettings w b v
          = v\<lparr>workTime := Num w1, breakTime := Num b1,
              timeLeft := (if isWorkSession v then Num w1 else Num b1)\<rparr>"
    using assms(2) w1(1) b1(1)
    by (cases w; cases b) (simp_all add: saveTimerSettings_def Let_def)
  then have eq: "saveTimerSettings w b v
          = v\<lparr>workTime := Num w1, breakTime := Num b1,
              timeLeft := (if isWorkSession v then Num w1 else Num b1)\<rparr>" .
  show ?thesis
    unfolding eq using w1(2) b1(2) assms(2) by (intro timer_inv_not_running [of _ w1 b1]) simp_all
qed

lemma timer_inv_tick:
  assumes "timer_inv (t, v)"
  shows "timer_inv (t, tick t v)"
proof (cases "timerRunning v")
  case False
  then show ?thesis using assms by (simp add: tick_not_running)
next
  case True
  from assms obtain k w b where v0: "timeLeft v = Num k" "workTime v = Num w"
      "breakTime v = Num b" "0 \<le> w" "0 \<le> b" "0 \<le> k"
      "k \<le> (if isWorkSession v then w else b)"
      "timerRunning v \<longrightarrow>
         (\<exists>e. timerEndTime v = Some (Num e) \<and> e \<le> t + (if isWorkSession v then w else b) * 1000)"
    by (rule timer_invE)
  from v0(8) True obtain e where e: "timerEndTime v = Some (Num e)"
      "e \<le> t + (if isWorkSession v then w else b) * 1000"
    by blast
  note v = v0(1-7) e
  show ?thesis
  proof (cases "0 < (e - t + 500) div 1000")
    case False
    then have "tick t v = completeTimer t v"
      using tick_completes [of v e t] True v(8) by simp
    then show ?thesis using timer_inv_completeTimer [OF assms, of t] by simp
  next
    case pos: True
    have eq: "tick t v = v\<lparr>timeLeft := Num ((e - t + 500) div 1000), timerAnimationFrame := True\<rparr>"
      using tick_counts [of v e t] True v(8) pos by simp
    have "e - t + 500 \<le> (if isWorkSession v then w else b) * 1000 + 500"
      using v(9) by simp
    then have "(e - t + 500) div 1000 \<le> ((if isWorkSession v then w else b) * 1000 + 500) div 1000"
      by (rule zdiv_mono1) simp
    then have le: "(e - t + 500) div 1000 \<le> (if isWorkSession v then w else b)"
      by simp
    show ?thesis
      unfolding eq using v pos le
      by (intro timer_invI [of _ "(e - t + 500) div 1000" w b]) simp_all
  qed
qed

lemma timer_inv_run_due_auto_starts:
  "timer_inv (t, v) \<Longrightarrow> timer_inv (t, run_due_auto_starts t v)"
proof -
  assume a: "timer_inv (t, v)"
  have "timer_inv (t, v\<lparr>pendingAutoStarts := filter (\<lambda>d. \<not> d \<le> t) (pendingAutoStarts v)\<rparr>)"
    using a by (elim timer_invE, intro timer_invI) simp_all
  then show ?thesis
    using a timer_inv_startTimer unfolding run_due_auto_starts_def by simp
qed

lemma timer_inv_step:
  assumes "timer_inv (t, v)" "event_admissible v e"
  shows "timer_inv (t, step t e v)"
  using assms
  by (cases e)
     (simp_all add: timer_inv_startTimer timer_inv_pauseTimer timer_inv_resetTimer
        timer_inv_completeTimer timer_inv_saveTimerSettings timer_inv_tick
        timer_inv_run_due_auto_starts)

lemma timer_inv_timed_step:
  assumes "timer_inv cv" "event_admissible (snd cv) (snd de)"
  shows "timer_inv (timed_step cv de)"
proof -
  have "timer_inv (fst cv + int (fst de), snd cv)"
    using assms(1) timer_inv_later [of "fst cv" "snd cv" "fst cv + int (fst de)"] by simp
  then show ?thesis
    unfolding timed_step_def using assms(2) by (rule timer_inv_step)
qed

lemma timer_inv_run: "timer_inv cv \<Longrightarrow> admissible cv es \<Longrightarrow> timer_inv (run cv es)"
proof (induction es arbitrary: cv)
  case Nil
  then show ?case by (simp add: run_def)
next
  case (Cons de es)
  have "timer_inv (timed_step cv de)"
    using Cons.prems by (simp add: timer_inv_timed_step)
  moreover have "admissible (timed_step cv de) es"
    using Cons.prems by simp
  ultimately have "timer_inv (run (timed_step cv de) es)"
    by (rule Cons.IH)
  then show ?case by (simp add: run_def)
qed

lemma timer_inv_in_range:
  assumes "timer_inv cv"
  shows "timeLeft_in_range (snd cv)"
proof -
  have "timer_inv (fst cv, snd cv)" using assms by simp
  then obtain k w b where v: "timeLeft (snd cv) = Num k" "workTime (snd cv) = Num w"
      "breakTime (snd cv) = Num b" "0 \<le> w" "0 \<le> b" "0 \<le> k"
      "k \<le> (if isWorkSession (snd cv) then w else b)"
    by (rule timer_invE)
  have "k \<le> max w b"
    using v(7) by (simp add: max_def split: if_splits)
  then show ?thesis
    using v by (simp add: timeLeft_in_range_def)
qed

text \<open>
  C4, as the code has it. From the initial view, after any sequence of timer events in
  which the settings are saved only while the timer is not running and only with fields
  read as numbers that are not negative, the remaining time lies between 0 and the larger
  of the two durations.
\<close>

theorem timeLeft_in_range_reachable:
  "admissible (t0, initial_view today) es \<Longrightarrow>
   timeLeft_in_range (snd (run (t0, initial_view today) es))"
  by (rule timer_inv_in_range, rule timer_inv_run, rule timer_inv_initial)

lemma field_not_negative_25_5:
  "field_not_negative (Some (js ''25''))" "field_not_negative (Some (js ''5''))"
  by (simp_all add: field_not_negative_def parseInt_25 parseInt_5)

lemma run_Cons: "run cv (de # es) = run (timed_step cv de) es"
  by (simp add: run_def)

lemma run_Nil: "run cv [] = cv"
  by (simp add: run_def)

theorem timeLeft_in_range_reachable_witness:
  "admissible (0, initial_view date0)
     [(0, Save (Some (js ''25'')) (Some (js ''5''))), (10, Start), (1000, Tick), (500, Pause),
      (0, Save (Some (js ''5'')) None), (7, Reset)] \<and>
   timeLeft_in_range
     (snd (run (0, initial_view date0)
        [(0, Save (Some (js ''25'')) (Some (js ''5''))), (10, Start), (1000, Tick), (500, Pause),
         (0, Save (Some (js ''5'')) None), (7, Reset)]))"
proof -
  have adm: "admissible (0, initial_view date0)
     [(0, Save (Some (js ''25'')) (Some (js ''5''))), (10, Start), (1000, Tick), (500, Pause),
      (0, Save (Some (js ''5'')) None), (7, Reset)]"
    by (simp add: timed_step_def field_not_negative_25_5 field_not_negative_def
          saveTimerSettings_def startTimer_def tick_def pauseTimer_def initial_view_def Let_def
          parseInt_25 parseInt_5)
  show ?thesis
    using adm timeLeft_in_range_reachable [OF adm] by simp
qed

text \<open>
  C4, as stated, fails: the timer is started with 2400 seconds left, then the settings are
  saved with 1 and 1 while it runs. Both durations become 60 seconds and the remaining
  time stays at 2400.
\<close>

theorem timeLeft_above_durations_after_save_while_running:
  "timeLeft (snd (run (0, initial_view date0)
      [(0, Start), (0, Save (Some (js ''1'')) (Some (js ''1'')))])) = Num 2400 \<and>
   workTime (snd (run (0, initial_view date0)
      [(0, Start), (0, Save (Some (js ''1'')) (Some (js ''1'')))])) = Num 60 \<and>
   breakTime (snd (run (0, initial_view date0)
      [(0, Start), (0, Save (Some (js ''1'')) (Some (js ''1'')))])) = Num 60 \<and>
   \<not> timeLeft_in_range (snd (run (0, initial_view date0)
      [(0, Start), (0, Save (Some (js ''1'')) (Some (js ''1'')))]))"
  by (simp add: run_def timed_step_def startTimer_def saveTimerSettings_def initial_view_def
        parseInt_1 timeLeft_in_range_def Let_def)

subsection \<open>Completion and the alternation of the phases\<close>

lemma run_append: "run cv (es @ es') = run (run cv es) es'"
  by (simp add: run_def)

lemma completeTimer_fields:
  "timerRunning (completeTimer now v) = False"
  "isWorkSession (completeTimer now v) = (\<not> isWorkSession v)"
  "timeLeft (completeTimer now v) = (if isWorkSession v then breakTime v else workTime v)"
  "pendingAutoStarts (completeTimer now v) = pendingAutoStarts v @ [now + 2000]"
  "workTime (completeTimer now v) = workTime v"
  "breakTime (completeTimer now v) = breakTime v"
  by (simp_all add: completeTimer_def pauseTimer_def Let_def)

lemma auto_start_not_due:
  assumes "pendingAutoStarts v = []" "t < now + 2000"
  shows "run_due_auto_starts t (completeTimer now v) = completeTimer now v"
  using assms by (simp add: run_due_auto_starts_def completeTimer_fields)

lemma auto_start_due:
  assumes "pendingAutoStarts v = []" "now + 2000 \<le> t"
  shows "run_due_auto_starts t (completeTimer now v)
           = (completeTimer now v)\<lparr>pendingAutoStarts := [], timerRunning := True,
                timerEndTime :=
                  Some (js_plus (Num t) (js_times (timeLeft (completeTimer now v)) (Num 1000))),
                timerAnimationFrame := True\<rparr>"
  using assms by (simp add: run_due_auto_starts_def completeTimer_fields startTimer_def)

text \<open>Frames that come at least 500 ms before the end only change the remaining time.\<close>

lemma run_frames_before_end:
  assumes "timerRunning v" "timerAnimationFrame v" "timerEndTime v = Some (Num e)"
    "timeLeft v = Num k0" "t + int (sum_list ds) \<le> e - 500"
  shows "\<exists>k. run (t, v) (map (\<lambda>d. (d, Tick)) ds) = (t + int (sum_list ds), v\<lparr>timeLeft := Num k\<rparr>)"
  using assms
proof (induction ds arbitrary: t v k0)
  case Nil
  then have "v\<lparr>timeLeft := Num k0\<rparr> = v" by simp
  then have "run (t, v) (map (\<lambda>d. (d, Tick)) []) = (t + int (sum_list []), v\<lparr>timeLeft := Num k0\<rparr>)"
    by (simp add: run_Nil)
  then show ?case by blast
next
  case (Cons d ds)
  let ?t = "t + int d"
  let ?r = "(e - ?t + 500) div 1000"
  have "1000 \<le> e - ?t + 500"
    using Cons.prems(5) by simp
  then have "1000 div 1000 \<le> ?r"
    by (rule zdiv_mono1) simp
  then have pos: "0 < ?r" by simp
  have tk: "tick ?t v = v\<lparr>timeLeft := Num ?r, timerAnimationFrame := True\<rparr>"
    using tick_counts [of v e ?t] Cons.prems(1,3) pos by simp
  have "v\<lparr>timeLeft := Num ?r, timerAnimationFrame := True\<rparr> = v\<lparr>timeLeft := Num ?r\<rparr>"
    using Cons.prems(2) by simp
  then have st: "timed_step (t, v) (d, Tick) = (?t, v\<lparr>timeLeft := Num ?r\<rparr>)"
    using tk by (simp add: timed_step_def)
  have "\<exists>k. run (?t, v\<lparr>timeLeft := Num ?r\<rparr>) (map (\<lambda>d. (d, Tick)) ds)
          = (?t + int (sum_list ds), v\<lparr>timeLeft := Num ?r\<rparr>\<lparr>timeLeft := Num k\<rparr>)"
  proof (rule Cons.IH)
    show "timerRunning (v\<lparr>timeLeft := Num ?r\<rparr>)" using Cons.prems(1) by simp
    show "timerAnimationFrame (v\<lparr>timeLeft := Num ?r\<rparr>)" using Cons.prems(2) by simp
    show "timerEndTime (v\<lparr>timeLeft := Num ?r\<rparr>) = Some (Num e)" using Cons.prems(3) by simp
    show "timeLeft (v\<lparr>timeLeft := Num ?r\<rparr>) = Num ?r" by simp
    show "?t + int (sum_list ds) \<le> e - 500" using Cons.prems(5) by simp
  qed
  then obtain k where "run (?t, v\<lparr>timeLeft := Num ?r\<rparr>) (map (\<lambda>d. (d, Tick)) ds)
          = (?t + int (sum_list ds), v\<lparr>timeLeft := Num k\<rparr>)"
    by auto
  then have "run (t, v) (map (\<lambda>d. (d, Tick)) (d # ds))
          = (t + int (sum_list (d # ds)), v\<lparr>timeLeft := Num k\<rparr>)"
    using st by (simp add: run_Cons add.assoc)
  then show ?case by blast
qed

lemma minute_frames_complete:
  assumes "minute_started work cv" "cycle_timed 60 c"
  shows "minute_completed (\<not> work) (run cv (cycle_frames c))"
proof -
  obtain t v where cv: "cv = (t, v)" by (cases cv)
  obtain ds dc da where c: "c = (ds, dc, da)" by (cases c)
  have v: "timerRunning v" "timerAnimationFrame v" "isWorkSession v = work"
      "timeLeft v = Num 60" "timerEndTime v = Some (Num (t + 60000))"
      "workTime v = Num 60" "breakTime v = Num 60" "pendingAutoStarts v = []"
    using assms(1) unfolding minute_started_def cv by simp_all
  have tm: "int (sum_list ds) \<le> 59500" "59500 < int (sum_list ds) + int dc"
    using assms(2) unfolding cycle_timed_def c by simp_all
  let ?t1 = "t + int (sum_list ds)"
  let ?tc = "?t1 + int dc"
  obtain k where frames: "run (t, v) (map (\<lambda>d. (d, Tick)) ds) = (?t1, v\<lparr>timeLeft := Num k\<rparr>)"
    using run_frames_before_end [of v "t + 60000" 60 t ds] v tm(1) by auto
  let ?v1 = "v\<lparr>timeLeft := Num k\<rparr>"
  have "t + 60000 - ?tc + 500 < 1000"
    using tm(2) by simp
  then have "t + 60000 - ?tc + 500 \<le> 999"
    by simp
  then have "(t + 60000 - ?tc + 500) div 1000 \<le> 999 div 1000"
    by (rule zdiv_mono1) simp
  then have "(t + 60000 - ?tc + 500) div 1000 \<le> 0"
    by simp
  then have tk: "tick ?tc ?v1 = completeTimer ?tc ?v1"
    using tick_completes [of ?v1 "t + 60000" ?tc] v by simp
  have "run cv (cycle_frames c) = run (?t1, ?v1) [(dc, Tick)]"
    unfolding cv c cycle_frames_def by (simp add: run_append frames)
  also have "\<dots> = (?tc, completeTimer ?tc ?v1)"
    using tk by (simp add: run_Cons run_Nil timed_step_def)
  finally have r: "run cv (cycle_frames c) = (?tc, completeTimer ?tc ?v1)" .
  show ?thesis
    unfolding r minute_completed_def using v by (simp add: completeTimer_fields)
qed

lemma minute_auto_start:
  assumes "minute_completed work cv" "2000 \<le> da"
  shows "minute_started work (run cv [(da, AutoStart)])"
proof -
  obtain t v where cv: "cv = (t, v)" by (cases cv)
  have v: "\<not> timerRunning v" "isWorkSession v = work" "timeLeft v = Num 60"
      "workTime v = Num 60" "breakTime v = Num 60" "pendingAutoStarts v = [t + 2000]"
    using assms(1) unfolding minute_completed_def cv by simp_all
  let ?t = "t + int da"
  have "run_due_auto_starts ?t v
          = v\<lparr>pendingAutoStarts := [], timerRunning := True,
              timerEndTime := Some (Num (?t + 60000)), timerAnimationFrame := True\<rparr>"
    using v assms(2) by (simp add: run_due_auto_starts_def startTimer_def)
  then have r: "run cv [(da, AutoStart)]
          = (?t, v\<lparr>pendingAutoStarts := [], timerRunning := True,
                    timerEndTime := Some (Num (?t + 60000)), timerAnimationFrame := True\<rparr>)"
    unfolding cv by (simp add: run_Cons run_Nil timed_step_def)
  show ?thesis
    unfolding r minute_started_def using v by simp
qed

lemma minute_cycle:
  assumes "minute_started work cv" "cycle_timed 60 c"
  shows "minute_started (\<not> work) (run cv (cycle_events c))"
proof -
  have "minute_completed (\<not> work) (run cv (cycle_frames c))"
    using assms by (rule minute_frames_complete)
  moreover have "2000 \<le> snd (snd c)"
    using assms(2) by (simp add: cycle_timed_def)
  ultimately have "minute_started (\<not> work) (run (run cv (cycle_frames c)) [(snd (snd c), AutoStart)])"
    by (rule minute_auto_start)
  then show ?thesis
    by (simp add: cycle_events_def run_append)
qed

lemma one_minute_start_started: "minute_started True (one_minute_start t0 today)"
  by (simp add: minute_started_def one_minute_start_def startTimer_def saveTimerSettings_def
        initial_view_def parseInt_1 Let_def)

lemma minute_cycles:
  assumes "list_all (cycle_timed 60) cs"
  shows "minute_started (even (length cs))
           (run (one_minute_start t0 today) (concat (map cycle_events cs)))"
  using assms
proof (induction cs rule: rev_induct)
  case Nil
  then show ?case by (simp add: run_Nil one_minute_start_started)
next
  case (snoc c cs)
  have "minute_started (even (length cs))
          (run (one_minute_start t0 today) (concat (map cycle_events cs)))"
    using snoc by simp
  moreover have "cycle_timed 60 c" using snoc.prems by simp
  ultimately have "minute_started (\<not> even (length cs))
      (run (run (one_minute_start t0 today) (concat (map cycle_events cs))) (cycle_events c))"
    by (rule minute_cycle)
  then show ?case by (simp add: run_append)
qed

text \<open>
  C3. \<open>completeTimer\<close> leaves the timer not running, flips the phase, sets the remaining
  time to the duration of the new phase and leaves a callback due two seconds later. With
  no other callback pending, nothing happens before the two seconds have passed, and from
  then on the callback starts the new phase. With one minute of work and one minute of
  break, and only animation frames and these callbacks happening, after any number of
  well-timed cycles the timer is running with 60 seconds left, in the work phase after an
  even number of cycles and in the break phase after an odd number; the completing frame of
  the next cycle flips the phase and resets the remaining time to 60.
\<close>

theorem completeTimer_alternates_phases:
  "timerRunning (completeTimer now v) = False \<and>
   isWorkSession (completeTimer now v) = (\<not> isWorkSession v) \<and>
   timeLeft (completeTimer now v) = (if isWorkSession v then breakTime v else workTime v) \<and>
   pendingAutoStarts (completeTimer now v) = pendingAutoStarts v @ [now + 2000] \<and>
   (pendingAutoStarts v = [] \<and> t < now + 2000 \<longrightarrow>
      run_due_auto_starts t (completeTimer now v) = completeTimer now v) \<and>
   (pendingAutoStarts v = [] \<and> now + 2000 \<le> t \<longrightarrow>
      run_due_auto_starts t (completeTimer now v)
        = (completeTimer now v)\<lparr>pendingAutoStarts := [], timerRunning := True,
             timerEndTime :=
               Some (js_plus (Num t) (js_times (timeLeft (completeTimer now v)) (Num 1000))),
             timerAnimationFrame := True\<rparr>) \<and>
   (list_all (cycle_timed 60) cs \<longrightarrow>
      minute_started (even (length cs))
        (run (one_minute_start t0 today) (concat (map cycle_events cs)))) \<and>
   (list_all (cycle_timed 60) cs \<and> cycle_timed 60 c \<longrightarrow>
      minute_completed (odd (length cs))
        (run (one_minute_start t0 today) (concat (map cycle_events cs) @ cycle_frames c)))"
proof -
  have "list_all (cycle_timed 60) cs \<and> cycle_timed 60 c \<longrightarrow>
      minute_completed (odd (length cs))
        (run (one_minute_start t0 today) (concat (map cycle_events cs) @ cycle_frames c))"
    using minute_frames_complete [OF minute_cycles [of cs t0 today], of c]
    by (simp add: run_append)
  then show ?thesis
    using completeTimer_fields(1-4) [of now v] auto_start_not_due [of v t now]
      auto_start_due [of v now t] minute_cycles [of cs t0 today]
    by blast
qed

theorem completeTimer_alternates_phases_witness:
  "timerRunning (run_due_auto_starts 2000 (completeTimer 0 (initial_view date0))) \<and>
   run_due_auto_starts 1999 (completeTimer 0 (initial_view date0))
     = completeTimer 0 (initial_view date0) \<and>
   minute_started True
     (run (one_minute_start 0 date0)
        (concat (map cycle_events [([20000, 39000], 1000, 2000), ([59500], 1, 2500)]))) \<and>
   minute_completed False
     (run (one_minute_start 0 date0)
        (concat (map cycle_events [([20000, 39000], 1000, 2000), ([59500], 1, 2500)])
           @ cycle_frames ([], 60000, 2000)))"
proof -
  have p: "pendingAutoStarts (initial_view date0) = []"
    by (simp add: initial_view_def)
  have cs: "list_all (cycle_timed 60) [([20000, 39000], 1000, 2000), ([59500], 1, 2500)]"
    by (simp add: cycle_timed_def)
  have c: "cycle_timed 60 ([], 60000, 2000)"
    by (simp add: cycle_timed_def)
  have a: "timerRunning (run_due_auto_starts 2000 (completeTimer 0 (initial_view date0)))"
    using completeTimer_alternates_phases
            [where now = 0 and v = "initial_view date0" and t = 2000] p
    by simp
  have b: "run_due_auto_starts 1999 (completeTimer 0 (initial_view date0))
             = completeTimer 0 (initial_view date0)"
    using completeTimer_alternates_phases
            [where now = 0 and v = "initial_view date0" and t = 1999] p
    by simp
  have d: "minute_started True
     (run (one_minute_start 0 date0)
        (concat (map cycle_events [([20000, 39000], 1000, 2000), ([59500], 1, 2500)]))) \<and>
   minute_completed False
     (run (one_minute_start 0 date0)
        (concat (map cycle_events [([20000, 39000], 1000, 2000), ([59500], 1, 2500)])
           @ cycle_frames ([], 60000, 2000)))"
    using completeTimer_alternates_phases
            [where cs = "[([20000, 39000], 1000, 2000), ([59500], 1, 2500)]"
               and c = "([], 60000, 2000)" and ?t0.0 = 0 and today = date0] cs c
    by simp
  show ?thesis using a b d by blast
qed

subsection \<open>Daily files\<close>

lemma createDailyFile_existing:
  assumes "files h (dateStr @ js ''.md'') = Some c" "openFile_throws faults = None"
  shows "createDailyFile now faults dateStr (h, v)
           = (h\<lparr>opened := opened h @ [dateStr @ js ''.md'']\<rparr>, v)"
  using assms by (simp add: createDailyFile_def Let_def)

lemma createDailyFile_failure:
  assumes "(files h (dateStr @ js ''.md'') \<noteq> None \<and> openFile_throws faults = Some m) \<or>
           (files h (dateStr @ js ''.md'') = None \<and> create_throws faults = Some m) \<or>
           (files h (dateStr @ js ''.md'') = None \<and> create_throws faults = None \<and>
              openFile_throws faults = Some m)"
  shows "snd (createDailyFile now faults dateStr (h, v)) = show_error m v"
  using assms by (auto simp: createDailyFile_def Let_def)

lemma show_error_section:
  "section_messages v = Some ps \<Longrightarrow>
   show_error m v
     = v\<lparr>section_messages :=
           Some (ps @ [\<lparr>cls = error_message,
                       message_text = [10060] @ js '' Error creating file: '' @ m\<rparr>])\<rparr>"
  by (simp add: show_error_def)

text \<open>
  C9. When the vault has a file \<open>dateStr + ".md"\<close> and opening it succeeds, the file is opened
  and nothing else changes: no file is created and no paragraph is added. When opening
  the existing file, creating the file or opening the created file throws an error with
  the message \<open>m\<close>, the view (its section being in place) gets one more paragraph of class
  \<open>error-message\<close> whose text ends with \<open>m\<close>; no removal is scheduled for it, and the task
  list and the timer fields are as before.
\<close>

theorem createDailyFile_opens_existing_or_reports:
  "(files h (dateStr @ js ''.md'') = Some c \<and> openFile_throws faults = None \<longrightarrow>
      createDailyFile now faults dateStr (h, v)
        = (h\<lparr>opened := opened h @ [dateStr @ js ''.md'']\<rparr>, v)) \<and>
   (((files h (dateStr @ js ''.md'') \<noteq> None \<and> openFile_throws faults = Some m) \<or>
     (files h (dateStr @ js ''.md'') = None \<and> create_throws faults = Some m) \<or>
     (files h (dateStr @ js ''.md'') = None \<and> create_throws faults = None \<and>
        openFile_throws faults = Some m)) \<and>
    section_messages v = Some ps \<longrightarrow>
      snd (createDailyFile now faults dateStr (h, v))
        = v\<lparr>section_messages :=
              Some (ps @ [\<lparr>cls = error_message,
                          message_text = [10060] @ js '' Error creating file: '' @ m\<rparr>])\<rparr>)"
proof (intro conjI impI)
  assume "files h (dateStr @ js ''.md'') = Some c \<and> openFile_throws faults = None"
  then show "createDailyFile now faults dateStr (h, v)
               = (h\<lparr>opened := opened h @ [dateStr @ js ''.md'']\<rparr>, v)"
    using createDailyFile_existing [of h dateStr c faults now v] by blast
next
  assume a: "((files h (dateStr @ js ''.md'') \<noteq> None \<and> openFile_throws faults = Some m) \<or>
     (files h (dateStr @ js ''.md'') = None \<and> create_throws faults = Some m) \<or>
     (files h (dateStr @ js ''.md'') = None \<and> create_throws faults = None \<and>
        openFile_throws faults = Some m)) \<and>
    section_messages v = Some ps"
  then have "snd (createDailyFile now faults dateStr (h, v)) = show_error m v"
    using createDailyFile_failure [of h dateStr faults m now v] by blast
  moreover have "show_error m v
      = v\<lparr>section_messages :=
            Some (ps @ [\<lparr>cls = error_message,
                        message_text = [10060] @ js '' Error creating file: '' @ m\<rparr>])\<rparr>"
    using a show_error_section [of v ps m] by blast
  ultimately show "snd (createDailyFile now faults dateStr (h, v))
        = v\<lparr>section_messages :=
              Some (ps @ [\<lparr>cls = error_message,
                          message_text = [10060] @ js '' Error creating file: '' @ m\<rparr>])\<rparr>"
    by simp
qed

lemma js_append: "js a @ js b = js (a @ b)"
  by (simp add: js_def)

theorem createDailyFile_opens_existing_or_reports_witness:
  "createDailyFile 0 \<lparr>create_throws = None, openFile_throws = None\<rparr> (js ''2026-11-02'')
     (\<lparr>files = [js ''2026-11-02.md'' \<mapsto> js ''notes''], opened = []\<rparr>, initial_view date0)
     = (\<lparr>files = [js ''2026-11-02.md'' \<mapsto> js ''notes''], opened = [js ''2026-11-02.md'']\<rparr>,
        initial_view date0) \<and>
   snd (createDailyFile 0 \<lparr>create_throws = Some (js ''disk full''), openFile_throws = None\<rparr>
          (js ''2026-11-02'') (\<lparr>files = Map.empty, opened = []\<rparr>, initial_view date0))
     = (initial_view date0)
         \<lparr>section_messages :=
            Some [\<lparr>cls = error_message,
                   message_text = [10060] @ js '' Error creating file: disk full''\<rparr>]\<rparr>"
proof -
  have s: "section_messages (initial_view date0) = Some []"
    by (simp add: initial_view_def)
  have a: "createDailyFile 0 \<lparr>create_throws = None, openFile_throws = None\<rparr> (js ''2026-11-02'')
     (\<lparr>files = [js ''2026-11-02.md'' \<mapsto> js ''notes''], opened = []\<rparr>, initial_view date0)
     = (\<lparr>files = [js ''2026-11-02.md'' \<mapsto> js ''notes''], opened = [js ''2026-11-02.md'']\<rparr>,
        initial_view date0)"
    using createDailyFile_opens_existing_or_reports
      [where h = "\<lparr>files = [js ''2026-11-02.md'' \<mapsto> js ''notes''], opened = []\<rparr>"
         and dateStr = "js ''2026-11-02''" and c = "js ''notes''"
         and faults = "\<lparr>create_throws = None, openFile_throws = None\<rparr>"
         and now = 0 and v = "initial_view date0"]
    by (simp add: js_append)
  have b: "snd (createDailyFile 0 \<lparr>create_throws = Some (js ''disk full''), openFile_throws = None\<rparr>
          (js ''2026-11-02'') (\<lparr>files = Map.empty, opened = []\<rparr>, initial_view date0))
     = (initial_view date0)
         \<lparr>section_messages :=
            Some [\<lparr>cls = error_message,
                   message_text = [10060] @ js '' Error creating file: disk full''\<rparr>]\<rparr>"
    using createDailyFile_opens_existing_or_reports
      [where h = "\<lparr>files = Map.empty, opened = []\<rparr>"
         and dateStr = "js ''2026-11-02''" and m = "js ''disk full''"
         and faults = "\<lparr>create_throws = Some (js ''disk full''), openFile_throws = None\<rparr>"
         and now = 0 and v = "initial_view date0" and ps = "[]"] s
    by (simp add: js_append)
  show ?thesis using a b by blast
qed

subsection \<open>Calendar\<close>

lemma local_date_no_gaps: "local_date no_gaps dt = dt"
  by (simp add: local_date_def no_gaps_def)

lemma setMonth_jan31_feb:
  "setMonth no_gaps date_jan31 1 = \<lparr>getFullYear = 2023, getMonth = 2, getDate = 3\<rparr>"
  by (simp add: setMonth_def local_date_no_gaps MakeDay_def date_jan31_def
        carry_days.simps [of 2023 1 31] carry_days.simps [of 2023 2 3] days_in_month_def
        is_leap_def)

lemma setMonth_mar3_feb:
  "setMonth no_gaps \<lparr>getFullYear = 2023, getMonth = 2, getDate = 3\<rparr> 1
     = \<lparr>getFullYear = 2023, getMonth = 1, getDate = 3\<rparr>"
  by (simp add: setMonth_def local_date_no_gaps MakeDay_def carry_days.simps [of 2023 1 3]
        days_in_month_def is_leap_def)

text \<open>
  C1. The view is opened on 31 January 2023, in a zone that skipped no day. The next-month
  button moves the cursor to 3 March 2023, since February has no 31st day, and the
  previous-month button then moves it to 3 February 2023: the month shown is February, not
  January.
\<close>

theorem next_then_prev_from_jan31:
  "currentDate (next_month_click no_gaps (initial_view date_jan31))
     = \<lparr>getFullYear = 2023, getMonth = 2, getDate = 3\<rparr> \<and>
   currentDate (prev_month_click no_gaps (next_month_click no_gaps (initial_view date_jan31)))
     = \<lparr>getFullYear = 2023, getMonth = 1, getDate = 3\<rparr> \<and>
   getMonth (currentDate
       (prev_month_click no_gaps (next_month_click no_gaps (initial_view date_jan31))))
     \<noteq> getMonth (currentDate (initial_view date_jan31))"
proof -
  have i: "currentDate (initial_view date_jan31) = date_jan31"
    by (simp add: initial_view_def)
  have m: "getMonth date_jan31 = 0"
    by (simp add: date_jan31_def)
  have a: "currentDate (next_month_click no_gaps (initial_view date_jan31))
     = \<lparr>getFullYear = 2023, getMonth = 2, getDate = 3\<rparr>"
    by (simp add: next_month_click_def i m setMonth_jan31_feb)
  have b: "currentDate
      (prev_month_click no_gaps (next_month_click no_gaps (initial_view date_jan31)))
     = \<lparr>getFullYear = 2023, getMonth = 1, getDate = 3\<rparr>"
    by (simp add: prev_month_click_def a setMonth_mar3_feb)
  show ?thesis
    by (simp add: a b i m)
qed

subsection \<open>The month grid\<close>

lemma days_in_month_bounds: "28 \<le> days_in_month y m" "days_in_month y m \<le> 31"
  by (simp_all add: days_in_month_def)

lemma carry_days_in_range:
  "1 \<le> d \<Longrightarrow> d \<le> days_in_month y m \<Longrightarrow>
   carry_days y m d = \<lparr>getFullYear = y, getMonth = m, getDate = d\<rparr>"
  by (subst carry_days.simps) simp

text \<open>Day 0 of a month is the last day of the month before.\<close>

lemma carry_days_zero:
  "carry_days y m 0
     = \<lparr>getFullYear = (if m = 0 then y - 1 else y), getMonth = (if m = 0 then 11 else m - 1),
        getDate = days_in_month (if m = 0 then y - 1 else y) (if m = 0 then 11 else m - 1)\<rparr>"
proof -
  let ?y = "if m = 0 then y - 1 else y"
  let ?m = "if m = 0 then 11 else m - 1"
  have "carry_days y m 0 = carry_days ?y ?m (0 + days_in_month ?y ?m)"
    by (subst carry_days.simps) simp
  also have "\<dots> = \<lparr>getFullYear = ?y, getMonth = ?m, getDate = days_in_month ?y ?m\<rparr>"
    using days_in_month_bounds(1) [of ?y ?m] by (simp add: carry_days_in_range)
  finally show ?thesis .
qed

lemma local_date_outside_gaps: "map_of z dt = None \<Longrightarrow> local_date z dt = dt"
  by (simp add: local_date_def)

lemma month_unskipped_day:
  assumes "month_unskipped z y m" "1 \<le> d" "d \<le> days_in_month y m"
  shows "map_of z \<lparr>getFullYear = y, getMonth = m, getDate = d\<rparr> = None"
proof -
  have "d \<in> set [1..days_in_month y m]"
    using assms(2,3) by simp
  then show ?thesis
    using assms(1) unfolding month_unskipped_def list_all_iff by blast
qed

lemma new_Date_in_month:
  assumes "0 \<le> m" "m \<le> 11" "1 \<le> d" "d \<le> days_in_month (full_year y) m"
    "month_unskipped z (full_year y) m"
  shows "new_Date z y m d = \<lparr>getFullYear = full_year y, getMonth = m, getDate = d\<rparr>"
proof -
  have "m div 12 = 0" "m mod 12 = m" using assms(1,2) by simp_all
  then have "MakeDay (full_year y) m d = carry_days (full_year y) m d"
    by (simp add: MakeDay_def)
  then have "MakeDay (full_year y) m d
               = \<lparr>getFullYear = full_year y, getMonth = m, getDate = d\<rparr>"
    using assms(3,4) by (simp add: carry_days_in_range)
  moreover have "local_date z \<lparr>getFullYear = full_year y, getMonth = m, getDate = d\<rparr>
                   = \<lparr>getFullYear = full_year y, getMonth = m, getDate = d\<rparr>"
    using assms(3,4,5) by (intro local_date_outside_gaps month_unskipped_day)
  ultimately show ?thesis
    by (simp add: new_Date_def)
qed

lemma new_Date_last_day:
  assumes "0 \<le> m" "m \<le> 11" "month_unskipped z (full_year y) m"
  shows "new_Date z y (m + 1) 0
           = \<lparr>getFullYear = full_year y, getMonth = m,
              getDate = days_in_month (full_year y) m\<rparr>"
proof -
  have made: "MakeDay (full_year y) (m + 1) 0
          = \<lparr>getFullYear = full_year y, getMonth = m,
             getDate = days_in_month (full_year y) m\<rparr>"
  proof (cases "m = 11")
    case True
    have "MakeDay (full_year y) (m + 1) 0 = carry_days (full_year y + 1) 0 0"
      using True by (simp add: MakeDay_def)
    then show ?thesis using True by (simp add: carry_days_zero)
  next
    case False
    then have "(m + 1) div 12 = 0" "(m + 1) mod 12 = m + 1" using assms(1,2) by simp_all
    then have "MakeDay (full_year y) (m + 1) 0 = carry_days (full_year y) (m + 1) 0"
      by (simp add: MakeDay_def)
    then show ?thesis using assms(1) by (simp add: carry_days_zero)
  qed
  have "1 \<le> days_in_month (full_year y) m"
    using days_in_month_bounds(1) [of "full_year y" m] by simp
  then have "local_date z \<lparr>getFullYear = full_year y, getMonth = m,
                           getDate = days_in_month (full_year y) m\<rparr>
        = \<lparr>getFullYear = full_year y, getMonth = m, getDate = days_in_month (full_year y) m\<rparr>"
    using assms(3) by (intro local_date_outside_gaps month_unskipped_day) simp_all
  then show ?thesis
    by (simp add: new_Date_def made)
qed

lemma getDay_range: "0 \<le> getDay dt" "getDay dt \<le> 6"
  by (simp_all add: getDay_def)

lemma startDay_monday_first:
  "(if getDay dt = 0 then 6 else getDay dt - 1) = (getDay dt + 6) mod 7"
  using getDay_range [of dt] by presburger

lemma getDay_in_month:
  "getDay \<lparr>getFullYear = y, getMonth = m, getDate = d\<rparr>
     = (getDay \<lparr>getFullYear = y, getMonth = m, getDate = 1\<rparr> + (d - 1)) mod 7"
proof -
  let ?a = "DayFromYear y + month_start y m"
  have "getDay \<lparr>getFullYear = y, getMonth = m, getDate = d\<rparr> = (?a + 4 + (d - 1)) mod 7"
    by (simp add: getDay_def Day_def algebra_simps)
  also have "\<dots> = ((?a + 4) mod 7 + (d - 1)) mod 7"
    by (rule mod_add_left_eq [symmetric])
  also have "(?a + 4) mod 7 = getDay \<lparr>getFullYear = y, getMonth = m, getDate = 1\<rparr>"
    by (simp add: getDay_def Day_def)
  finally show ?thesis .
qed

lemma column_of_day:
  assumes "1 \<le> d" "b = nat ((g + 6) mod 7)" "gd = (g + (d - 1)) mod 7"
  shows "int ((b + nat d - 1) mod 7) = (gd + 6) mod 7"
proof -
  have "int (b + nat d - 1) = (g + 6) mod 7 + (d - 1)"
    using assms(1,2) by simp
  then have "int ((b + nat d - 1) mod 7) = ((g + 6) mod 7 + (d - 1)) mod 7"
    by (simp add: zmod_int)
  also have "\<dots> = (g + 6 + (d - 1)) mod 7"
    by (simp add: mod_simps)
  also have "\<dots> = ((g + (d - 1)) mod 7 + 6) mod 7"
    by (simp add: mod_simps algebra_simps)
  finally show ?thesis by (simp add: assms(3))
qed

text \<open>
  The grid in closed form, for a cursor whose month is from 0 to 11 and a zone that skipped
  no day of the month drawn. The year drawn is \<open>full_year\<close> of the cursor's year.
\<close>

lemma renderCalendar_cells:
  assumes "0 \<le> getMonth (currentDate v)" "getMonth (currentDate v) \<le> 11"
    "month_unskipped z (full_year (getFullYear (currentDate v))) (getMonth (currentDate v))"
  shows "renderCalendar z today v
           = replicate
               (nat ((getDay \<lparr>getFullYear = full_year (getFullYear (currentDate v)),
                               getMonth = getMonth (currentDate v), getDate = 1\<rparr> + 6) mod 7))
               EmptyCell @
             map (\<lambda>day. DayCell day
                    (isDateToday today
                       \<lparr>getFullYear = full_year (getFullYear (currentDate v)),
                        getMonth = getMonth (currentDate v), getDate = day\<rparr>)
                    (formatDateString
                       \<lparr>getFullYear = full_year (getFullYear (currentDate v)),
                        getMonth = getMonth (currentDate v), getDate = day\<rparr>))
               [1..days_in_month (full_year (getFullYear (currentDate v)))
                     (getMonth (currentDate v))]"
proof -
  let ?y = "getFullYear (currentDate v)"
  let ?m = "getMonth (currentDate v)"
  let ?n = "days_in_month (full_year ?y) ?m"
  have first: "new_Date z ?y ?m 1 = \<lparr>getFullYear = full_year ?y, getMonth = ?m, getDate = 1\<rparr>"
    using assms days_in_month_bounds(1) [of "full_year ?y" ?m]
    by (intro new_Date_in_month) simp_all
  have last: "getDate (new_Date z ?y (?m + 1) 0) = ?n"
    using new_Date_last_day [OF assms] by simp
  have days: "map (\<lambda>day. DayCell day (isDateToday today (new_Date z ?y ?m day))
                           (formatDateString (new_Date z ?y ?m day))) [1..?n]
        = map (\<lambda>day. DayCell day
                 (isDateToday today \<lparr>getFullYear = full_year ?y, getMonth = ?m, getDate = day\<rparr>)
                 (formatDateString \<lparr>getFullYear = full_year ?y, getMonth = ?m, getDate = day\<rparr>))
            [1..?n]"
  proof (rule map_cong [OF refl])
    fix d assume "d \<in> set [1..?n]"
    then have "1 \<le> d" "d \<le> ?n" by simp_all
    then have "new_Date z ?y ?m d = \<lparr>getFullYear = full_year ?y, getMonth = ?m, getDate = d\<rparr>"
      using assms by (intro new_Date_in_month) simp_all
    then show "DayCell d (isDateToday today (new_Date z ?y ?m d))
                 (formatDateString (new_Date z ?y ?m d))
        = DayCell d
            (isDateToday today \<lparr>getFullYear = full_year ?y, getMonth = ?m, getDate = d\<rparr>)
            (formatDateString \<lparr>getFullYear = full_year ?y, getMonth = ?m, getDate = d\<rparr>)"
      by simp
  qed
  show ?thesis
    unfolding renderCalendar_def Let_def first last days startDay_monday_first ..
qed

lemma takeWhile_blanks_then_days:
  "takeWhile (\<lambda>c. c = EmptyCell) (replicate b EmptyCell @ map (\<lambda>d. DayCell d (p d) (s d)) ds)
     = replicate b EmptyCell"
proof -
  have "takeWhile (\<lambda>c. c = EmptyCell) (map (\<lambda>d. DayCell d (p d) (s d)) ds) = []"
    by (cases ds) simp_all
  moreover have "takeWhile (\<lambda>c. c = EmptyCell)
                   (replicate b EmptyCell @ map (\<lambda>d. DayCell d (p d) (s d)) ds)
        = replicate b EmptyCell
            @ takeWhile (\<lambda>c. c = EmptyCell) (map (\<lambda>d. DayCell d (p d) (s d)) ds)"
    by (rule takeWhile_append2) simp
  ultimately show ?thesis by simp
qed

lemma nth_after_replicate: "(replicate b x @ ys) ! (b + n) = ys ! n"
  by (simp add: nth_append)

text \<open>
  The grid of the month that is drawn. For a cursor whose month is from 0 to 11, and a zone
  that skipped no day of the month drawn, the grid starts with \<open>(getDay(firstDay) + 6) mod 7\<close>
  empty cells, which is 6 when the month starts on a Sunday. After them come exactly the
  days of that month, one cell each and in order: the cell of day \<open>d\<close> is at position
  \<open>blanks + d - 1\<close>, it carries the date \<open>d\<close> of that month, and its column (the position
  modulo 7) is the week day of that date counted from Monday. The year of the month drawn
  is \<open>full_year\<close> of the cursor's year.
\<close>

lemma renderCalendar_grid_of_drawn_month:
  assumes "0 \<le> getMonth (currentDate v)" "getMonth (currentDate v) \<le> 11"
    "month_unskipped z (full_year (getFullYear (currentDate v))) (getMonth (currentDate v))"
    "Y = full_year (getFullYear (currentDate v))" "m = getMonth (currentDate v)"
  shows "int (leading_blanks (renderCalendar z today v))
           = (getDay \<lparr>getFullYear = Y, getMonth = m, getDate = 1\<rparr> + 6) mod 7 \<and>
    (getDay \<lparr>getFullYear = Y, getMonth = m, getDate = 1\<rparr> = 0
       \<longrightarrow> leading_blanks (renderCalendar z today v) = 6) \<and>
    length (renderCalendar z today v)
      = leading_blanks (renderCalendar z today v) + nat (days_in_month Y m) \<and>
    (\<forall>d. 1 \<le> d \<and> d \<le> days_in_month Y m \<longrightarrow>
         renderCalendar z today v ! (leading_blanks (renderCalendar z today v) + nat d - 1)
           = DayCell d
               (isDateToday today \<lparr>getFullYear = Y, getMonth = m, getDate = d\<rparr>)
               (formatDateString \<lparr>getFullYear = Y, getMonth = m, getDate = d\<rparr>) \<and>
         int ((leading_blanks (renderCalendar z today v) + nat d - 1) mod 7)
           = (getDay \<lparr>getFullYear = Y, getMonth = m, getDate = d\<rparr> + 6) mod 7)"
proof -
  let ?n = "days_in_month Y m"
  let ?g = "getDay \<lparr>getFullYear = Y, getMonth = m, getDate = 1\<rparr>"
  let ?b = "nat ((?g + 6) mod 7)"
  let ?f = "\<lambda>day. DayCell day
                   (isDateToday today \<lparr>getFullYear = Y, getMonth = m, getDate = day\<rparr>)
                   (formatDateString \<lparr>getFullYear = Y, getMonth = m, getDate = day\<rparr>)"
  have cells: "renderCalendar z today v = replicate ?b EmptyCell @ map ?f [1..?n]"
    unfolding assms(4,5) using assms(1,2,3) by (rule renderCalendar_cells)
  have blanks: "leading_blanks (renderCalendar z today v) = ?b"
    unfolding leading_blanks_def cells by (simp only: takeWhile_blanks_then_days length_replicate)
  have b1: "int (leading_blanks (renderCalendar z today v)) = (?g + 6) mod 7"
    unfolding blanks by simp
  have b2: "?g = 0 \<longrightarrow> leading_blanks (renderCalendar z today v) = 6"
    unfolding blanks by simp
  have len: "length (renderCalendar z today v) = ?b + nat ?n"
    unfolding cells by simp
  have days: "\<forall>d. 1 \<le> d \<and> d \<le> ?n \<longrightarrow>
         renderCalendar z today v ! (?b + nat d - 1) = ?f d \<and>
         int ((?b + nat d - 1) mod 7)
           = (getDay \<lparr>getFullYear = Y, getMonth = m, getDate = d\<rparr> + 6) mod 7"
  proof (intro allI impI)
    fix d assume d: "1 \<le> d \<and> d \<le> ?n"
    have d1: "1 \<le> d" and d2: "d \<le> ?n"
      using d by blast+
    have "1 \<le> nat d"
      using d1 by linarith
    then have idx: "?b + nat d - 1 = ?b + (nat d - 1)"
      by simp
    have "renderCalendar z today v ! (?b + nat d - 1) = map ?f [1..?n] ! (nat d - 1)"
      unfolding cells idx by (rule nth_after_replicate)
    also have "\<dots> = ?f ([1..?n] ! (nat d - 1))"
      using d1 d2 by (intro nth_map) simp
    also have "[1..?n] ! (nat d - 1) = 1 + int (nat d - 1)"
      using d1 d2 by (intro nth_upto) simp
    also have "1 + int (nat d - 1) = d"
      using d1 by simp
    finally have c: "renderCalendar z today v ! (?b + nat d - 1) = ?f d" .
    have "getDay \<lparr>getFullYear = Y, getMonth = m, getDate = d\<rparr> = (?g + (d - 1)) mod 7"
      by (rule getDay_in_month)
    then have col: "int ((?b + nat d - 1) mod 7)
          = (getDay \<lparr>getFullYear = Y, getMonth = m, getDate = d\<rparr> + 6) mod 7"
      using d1 by (intro column_of_day [of d ?b ?g]) simp_all
    show "renderCalendar z today v ! (?b + nat d - 1) = ?f d \<and>
         int ((?b + nat d - 1) mod 7)
           = (getDay \<lparr>getFullYear = Y, getMonth = m, getDate = d\<rparr> + 6) mod 7"
      using c col by blast
  qed
  show ?thesis
    using b1 b2 len days unfolding blanks by blast
qed

text \<open>
  When the cursor's year is not from 0 to 99 the month drawn is the cursor's own month:
  its own first week day gives the empty cells and its own number of days the day cells.
\<close>

lemma renderCalendar_grid_of_cursor_month:
  assumes "0 \<le> getMonth (currentDate v)" "getMonth (currentDate v) \<le> 11"
    "getFullYear (currentDate v) < 0 \<or> 99 < getFullYear (currentDate v)"
    "month_unskipped z (getFullYear (currentDate v)) (getMonth (currentDate v))"
  shows "int (leading_blanks (renderCalendar z today v)) = (getDay (cursor_day v 1) + 6) mod 7 \<and>
    (getDay (cursor_day v 1) = 0 \<longrightarrow> leading_blanks (renderCalendar z today v) = 6) \<and>
    length (renderCalendar z today v)
      = leading_blanks (renderCalendar z today v)
          + nat (days_in_month (getFullYear (currentDate v)) (getMonth (currentDate v))) \<and>
    (\<forall>d. 1 \<le> d \<and> d \<le> days_in_month (getFullYear (currentDate v)) (getMonth (currentDate v))
       \<longrightarrow>
         renderCalendar z today v ! (leading_blanks (renderCalendar z today v) + nat d - 1)
           = DayCell d (isDateToday today (cursor_day v d)) (formatDateString (cursor_day v d)) \<and>
         int ((leading_blanks (renderCalendar z today v) + nat d - 1) mod 7)
           = (getDay (cursor_day v d) + 6) mod 7)"
proof -
  have fy: "full_year (getFullYear (currentDate v)) = getFullYear (currentDate v)"
    using assms(3) by (auto simp: full_year_def)
  show ?thesis
    unfolding cursor_day_def
    using assms(1,2) by (rule renderCalendar_grid_of_drawn_month) (simp_all add: fy assms(4))
qed

lemma currentDate_initial_view: "currentDate (initial_view today) = today"
  by (simp add: initial_view_def)

lemma initial_view_cursor: "(initial_view today)\<lparr>currentDate := dt\<rparr> = initial_view dt"
  by (simp add: initial_view_def)

text \<open>
  In Pacific/Apia the date asked for as 30 December 2011 is 31 December 2011, a Saturday,
  and 29 December is left as it is.
\<close>

lemma new_Date_apia_skipped_day:
  "new_Date apia 2011 11 30 = \<lparr>getFullYear = 2011, getMonth = 11, getDate = 31\<rparr> \<and>
   new_Date apia 2011 11 29 = \<lparr>getFullYear = 2011, getMonth = 11, getDate = 29\<rparr> \<and>
   getDay (new_Date apia 2011 11 30) = 6"
  by (simp add: new_Date_def full_year_def MakeDay_def local_date_def apia_def
        carry_days.simps [of 2011 11 30] carry_days.simps [of 2011 11 29]
        carry_days.simps [of 2011 11 31] days_in_month_def getDay_def Day_def DayFromYear_def
        month_start_def is_leap_def)

text \<open>
  When the day of the month is at most 28 no day is carried into the next month, and in a
  zone that skipped no date with this day of the month \<open>setMonth\<close> changes the month only.
\<close>

lemma map_of_other_day:
  assumes "\<forall>g\<in>set z. getDate (fst g) \<noteq> d"
  shows "map_of z \<lparr>getFullYear = y, getMonth = m, getDate = d\<rparr> = None"
proof -
  have "\<lparr>getFullYear = y, getMonth = m, getDate = d\<rparr> \<notin> fst ` set z"
    using assms by force
  then show ?thesis
    by (simp add: map_of_eq_None_iff)
qed

lemma setMonth_small_day_zone:
  assumes "1 \<le> getDate dt" "getDate dt \<le> 28" "\<forall>g\<in>set z. getDate (fst g) \<noteq> getDate dt"
  shows "setMonth z dt m
           = \<lparr>getFullYear = getFullYear dt + m div 12, getMonth = m mod 12, getDate = getDate dt\<rparr>"
proof -
  have "carry_days (getFullYear dt + m div 12) (m mod 12) (getDate dt)
          = \<lparr>getFullYear = getFullYear dt + m div 12, getMonth = m mod 12,
             getDate = getDate dt\<rparr>"
    using assms(1,2) days_in_month_bounds(1) [of "getFullYear dt + m div 12" "m mod 12"]
    by (intro carry_days_in_range) simp_all
  moreover have "local_date z \<lparr>getFullYear = getFullYear dt + m div 12, getMonth = m mod 12,
                     getDate = getDate dt\<rparr>
        = \<lparr>getFullYear = getFullYear dt + m div 12, getMonth = m mod 12, getDate = getDate dt\<rparr>"
    using assms(3) by (intro local_date_outside_gaps map_of_other_day)
  ultimately show ?thesis
    by (simp add: setMonth_def MakeDay_def)
qed

text \<open>In a zone that skipped no day the two buttons then undo each other.\<close>

lemma setMonth_small_day:
  assumes "1 \<le> getDate dt" "getDate dt \<le> 28"
  shows "setMonth no_gaps dt m
           = \<lparr>getFullYear = getFullYear dt + m div 12, getMonth = m mod 12, getDate = getDate dt\<rparr>"
  using assms by (intro setMonth_small_day_zone) (simp_all add: no_gaps_def)

lemma next_then_prev_small_day:
  assumes "0 \<le> getMonth (currentDate v)" "getMonth (currentDate v) \<le> 11"
    "1 \<le> getDate (currentDate v)" "getDate (currentDate v) \<le> 28"
  shows "prev_month_click no_gaps (next_month_click no_gaps v) = v"
proof -
  let ?c = "currentDate v"
  let ?n = "\<lparr>getFullYear = getFullYear ?c + (getMonth ?c + 1) div 12,
             getMonth = (getMonth ?c + 1) mod 12, getDate = getDate ?c\<rparr>"
  have n: "next_month_click no_gaps v = v\<lparr>currentDate := ?n\<rparr>"
    using assms(3,4) by (simp add: next_month_click_def setMonth_small_day)
  have "setMonth no_gaps ?n (getMonth ?n - 1)
          = \<lparr>getFullYear = getFullYear ?n + (getMonth ?n - 1) div 12,
             getMonth = (getMonth ?n - 1) mod 12, getDate = getDate ?n\<rparr>"
    using assms(3,4) by (intro setMonth_small_day) simp_all
  also have "\<dots> = ?c"
  proof (cases "getMonth ?c = 11")
    case True
    then show ?thesis by simp
  next
    case False
    then have "(getMonth ?c + 1) div 12 = 0" "(getMonth ?c + 1) mod 12 = getMonth ?c + 1"
      using assms(1,2) by simp_all
    then show ?thesis using assms(1,2) by simp
  qed
  finally have undone: "setMonth no_gaps ?n (getMonth ?n - 1) = ?c" .
  have "prev_month_click no_gaps (v\<lparr>currentDate := ?n\<rparr>)
          = v\<lparr>currentDate := setMonth no_gaps ?n (getMonth ?n - 1)\<rparr>"
    by (simp add: prev_month_click_def)
  also have "\<dots> = v\<lparr>currentDate := ?c\<rparr>"
    by (simp only: undone)
  also have "\<dots> = v"
    by simp
  finally show ?thesis
    by (simp only: n)
qed

text \<open>
  The previous-month button pressed \<open>k\<close> times, from a day of the month that is at most 28
  and in a zone that skipped no date with this day of the month: the cursor goes back \<open>k\<close>
  months, through every year, also the years from 99 down to 0.
\<close>

lemma div_pred_12: "(q - 1) div 12 = q div 12 + (q mod 12 - 1) div (12::int)"
proof -
  have "q - 1 = (q mod 12 - 1) + 12 * (q div 12)"
    by simp
  then have "(q - 1) div 12 = ((q mod 12 - 1) + 12 * (q div 12)) div 12"
    by (rule arg_cong)
  also have "\<dots> = q div 12 + (q mod 12 - 1) div 12"
    by (rule div_mult_self2) simp
  finally show ?thesis .
qed

lemma prev_month_clicks:
  assumes "0 \<le> getMonth (currentDate v)" "getMonth (currentDate v) \<le> 11"
    "1 \<le> getDate (currentDate v)" "getDate (currentDate v) \<le> 28"
    "\<forall>g\<in>set z. getDate (fst g) \<noteq> getDate (currentDate v)"
  shows "(prev_month_click z ^^ k) v
           = v\<lparr>currentDate :=
                 \<lparr>getFullYear =
                    (12 * getFullYear (currentDate v) + getMonth (currentDate v) - int k) div 12,
                  getMonth =
                    (12 * getFullYear (currentDate v) + getMonth (currentDate v) - int k) mod 12,
                  getDate = getDate (currentDate v)\<rparr>\<rparr>"
proof (induction k)
  case 0
  have "(12 * getFullYear (currentDate v) + getMonth (currentDate v)) div 12
          = getFullYear (currentDate v)"
    "(12 * getFullYear (currentDate v) + getMonth (currentDate v)) mod 12
          = getMonth (currentDate v)"
    using assms(1,2) by simp_all
  then show ?case by simp
next
  case (Suc k)
  let ?q = "12 * getFullYear (currentDate v) + getMonth (currentDate v) - int k"
  let ?c = "\<lparr>getFullYear = ?q div 12, getMonth = ?q mod 12, getDate = getDate (currentDate v)\<rparr>"
  have "setMonth z ?c (getMonth ?c - 1)
          = \<lparr>getFullYear = getFullYear ?c + (getMonth ?c - 1) div 12,
             getMonth = (getMonth ?c - 1) mod 12, getDate = getDate ?c\<rparr>"
    using assms(3,4,5) by (intro setMonth_small_day_zone) simp_all
  also have "\<dots> = \<lparr>getFullYear = (?q - 1) div 12, getMonth = (?q - 1) mod 12,
                     getDate = getDate (currentDate v)\<rparr>"
    by (simp add: div_pred_12 [of ?q] mod_diff_left_eq)
  finally have s: "setMonth z ?c (getMonth ?c - 1)
          = \<lparr>getFullYear = (?q - 1) div 12, getMonth = (?q - 1) mod 12,
             getDate = getDate (currentDate v)\<rparr>" .
  have q: "12 * getFullYear (currentDate v) + getMonth (currentDate v) - int (Suc k) = ?q - 1"
    by simp
  have "(prev_month_click z ^^ Suc k) v = prev_month_click z (v\<lparr>currentDate := ?c\<rparr>)"
    by (simp only: funpow.simps o_apply Suc.IH)
  also have "\<dots> = v\<lparr>currentDate := setMonth z ?c (getMonth ?c - 1)\<rparr>"
    by (simp add: prev_month_click_def)
  finally show ?case
    by (simp only: s q)
qed

lemma month_unskipped_no_gaps: "month_unskipped no_gaps y m"
  by (simp add: month_unskipped_def no_gaps_def list_all_iff)

text \<open>
  A month of which the zone skipped a day. In Pacific/Kiritimati the view opened on
  2 November 2026 reaches December 1994 by 383 clicks on the previous-month button. The last
  day asked for, 31 December 1994, is read back as 1 January 1995, so \<open>daysInMonth\<close> is 1 and
  the grid has one day cell after its 3 empty cells, for a month of 31 days.
\<close>

lemma formatDateString_first_of_december_1994:
  "formatDateString \<lparr>getFullYear = 1994, getMonth = 11, getDate = 1\<rparr> = js ''1994-12-01''"
  by (simp add: formatDateString_def String_of_def padStart2_def js_def
        digits_of.simps [of 1994] digits_of.simps [of 199] digits_of.simps [of 19]
        digits_of.simps [of 1] digits_of.simps [of "Suc 0"] digits_of.simps [of 12])

lemma new_Date_kiritimati_december_1994:
  "new_Date kiritimati 1994 11 1 = \<lparr>getFullYear = 1994, getMonth = 11, getDate = 1\<rparr>"
  "new_Date kiritimati 1994 12 0 = \<lparr>getFullYear = 1995, getMonth = 0, getDate = 1\<rparr>"
  by (simp_all add: new_Date_def full_year_def MakeDay_def local_date_def kiritimati_def
        carry_days.simps [of 1994 11 1] carry_days.simps [of 1995 0 0]
        carry_days.simps [of 1994 11 31] carry_days.simps [of 1994 11 32]
        carry_days.simps [of 1995 0 1] days_in_month_def is_leap_def)

lemma renderCalendar_kiritimati_december_1994:
  "(prev_month_click kiritimati ^^ 383) (initial_view date0) = initial_view date_dec_1994 \<and>
   renderCalendar kiritimati date0 (initial_view date_dec_1994)
     = [EmptyCell, EmptyCell, EmptyCell, DayCell 1 False (js ''1994-12-01'')] \<and>
   days_in_month (getFullYear (currentDate (initial_view date_dec_1994)))
     (getMonth (currentDate (initial_view date_dec_1994))) = 31"
proof -
  let ?v = "initial_view date_dec_1994"
  have c: "currentDate ?v = date_dec_1994"
    by (rule currentDate_initial_view)
  have y: "getFullYear date_dec_1994 = 1994" and m: "getMonth date_dec_1994 = 11"
    by (simp_all add: date_dec_1994_def)
  have reach: "(prev_month_click kiritimati ^^ 383) (initial_view date0) = ?v"
  proof -
    have "(prev_month_click kiritimati ^^ 383) (initial_view date0)
            = (initial_view date0)\<lparr>currentDate :=
                 \<lparr>getFullYear = (12 * 2026 + 10 - int 383) div 12,
                  getMonth = (12 * 2026 + 10 - int 383) mod 12, getDate = 2\<rparr>\<rparr>"
      using prev_month_clicks [of "initial_view date0" kiritimati 383]
      by (simp add: currentDate_initial_view date0_def kiritimati_def)
    also have "\<dots> = (initial_view date0)\<lparr>currentDate := date_dec_1994\<rparr>"
      by (simp add: date_dec_1994_def)
    finally show ?thesis
      by (simp only: initial_view_cursor)
  qed
  have g: "getDay \<lparr>getFullYear = 1994, getMonth = 11, getDate = 1\<rparr> = 4"
    by (simp add: getDay_def Day_def DayFromYear_def month_start_def is_leap_def)
  have u: "[1..1] = [1::int]"
    by (simp add: upto.simps)
  have t: "isDateToday date0 \<lparr>getFullYear = 1994, getMonth = 11, getDate = 1\<rparr> = False"
    by (simp add: isDateToday_def date0_def)
  have r: "replicate 3 EmptyCell = [EmptyCell, EmptyCell, EmptyCell]"
    by (simp add: numeral_3_eq_3)
  have grid: "renderCalendar kiritimati date0 ?v
          = [EmptyCell, EmptyCell, EmptyCell, DayCell 1 False (js ''1994-12-01'')]"
    unfolding renderCalendar_def Let_def c y m
    by (simp add: new_Date_kiritimati_december_1994 g u t r
          formatDateString_first_of_december_1994)
  have days: "days_in_month (getFullYear (currentDate ?v)) (getMonth (currentDate ?v)) = 31"
    by (simp add: c y m days_in_month_def)
  show ?thesis
    using reach grid days by blast
qed

lemma formatDateString_first_of_february_1900:
  "formatDateString \<lparr>getFullYear = 1900, getMonth = 1, getDate = 1\<rparr> = js ''1900-02-01''"
  by (simp add: formatDateString_def String_of_def padStart2_def js_def
        digits_of.simps [of 1900] digits_of.simps [of 190] digits_of.simps [of 19]
        digits_of.simps [of 1] digits_of.simps [of "Suc 0"] digits_of.simps [of 2])

text \<open>
  C8. The view is opened on 2 November 2026 in a zone that skipped no day, and the
  previous-month button is pressed 24321 times: the cursor is on February of the year 0.
  \<open>renderCalendar\<close> passes this year to \<open>new Date\<close>, which takes it for 1900, and draws
  February 1900: 3 empty cells, then 28 day cells, the first with the date 1900-02-01. The
  cursor's own month starts on a Tuesday, which asks for 1 empty cell, and has 29 days.
\<close>

theorem renderCalendar_year_0_draws_1900:
  "(prev_month_click no_gaps ^^ 24321) (initial_view date0) = initial_view date_feb_year0 \<and>
   leading_blanks (renderCalendar no_gaps date0 (initial_view date_feb_year0)) = 3 \<and>
   length (renderCalendar no_gaps date0 (initial_view date_feb_year0)) = 3 + 28 \<and>
   renderCalendar no_gaps date0 (initial_view date_feb_year0) ! 3
     = DayCell 1 False (js ''1900-02-01'') \<and>
   (getDay (cursor_day (initial_view date_feb_year0) 1) + 6) mod 7 = 1 \<and>
   days_in_month (getFullYear (currentDate (initial_view date_feb_year0)))
     (getMonth (currentDate (initial_view date_feb_year0))) = 29"
proof -
  let ?v = "initial_view date_feb_year0"
  let ?G = "renderCalendar no_gaps date0 ?v"
  have c: "currentDate ?v = date_feb_year0"
    by (rule currentDate_initial_view)
  have y: "getFullYear date_feb_year0 = 0" and m: "getMonth date_feb_year0 = 1"
    by (simp_all add: date_feb_year0_def)
  have reach: "(prev_month_click no_gaps ^^ 24321) (initial_view date0) = ?v"
  proof -
    have "(prev_month_click no_gaps ^^ 24321) (initial_view date0)
            = (initial_view date0)\<lparr>currentDate :=
                 \<lparr>getFullYear = (12 * 2026 + 10 - int 24321) div 12,
                  getMonth = (12 * 2026 + 10 - int 24321) mod 12, getDate = 2\<rparr>\<rparr>"
      using prev_month_clicks [of "initial_view date0" no_gaps 24321]
      by (simp add: currentDate_initial_view date0_def no_gaps_def)
    also have "\<dots> = (initial_view date0)\<lparr>currentDate := date_feb_year0\<rparr>"
      by (simp add: date_feb_year0_def)
    finally show ?thesis
      by (simp only: initial_view_cursor)
  qed
  have g: "getDay \<lparr>getFullYear = 1900, getMonth = 1, getDate = 1\<rparr> = 4"
    by (simp add: getDay_def Day_def DayFromYear_def month_start_def is_leap_def)
  have n: "days_in_month 1900 1 = 28"
    by (simp add: days_in_month_def is_leap_def)
  note grid = renderCalendar_grid_of_drawn_month
                [of ?v no_gaps 1900 1 date0, unfolded c y m g n]
  have drawn: "int (leading_blanks ?G) = (4 + 6) mod 7 \<and>
      (4 = (0::int) \<longrightarrow> leading_blanks ?G = 6) \<and>
      length ?G = leading_blanks ?G + nat 28 \<and>
      (\<forall>d. 1 \<le> d \<and> d \<le> 28 \<longrightarrow>
         ?G ! (leading_blanks ?G + nat d - 1)
           = DayCell d (isDateToday date0 \<lparr>getFullYear = 1900, getMonth = 1, getDate = d\<rparr>)
               (formatDateString \<lparr>getFullYear = 1900, getMonth = 1, getDate = d\<rparr>) \<and>
         int ((leading_blanks ?G + nat d - 1) mod 7)
           = (getDay \<lparr>getFullYear = 1900, getMonth = 1, getDate = d\<rparr> + 6) mod 7)"
    by (rule grid) (simp_all add: full_year_def month_unskipped_no_gaps)
  have b: "leading_blanks ?G = 3"
    using drawn by simp
  have l: "length ?G = 3 + 28"
    using drawn by (simp add: b)
  have every: "\<forall>d. 1 \<le> d \<and> d \<le> 28 \<longrightarrow>
         ?G ! (leading_blanks ?G + nat d - 1)
           = DayCell d (isDateToday date0 \<lparr>getFullYear = 1900, getMonth = 1, getDate = d\<rparr>)
               (formatDateString \<lparr>getFullYear = 1900, getMonth = 1, getDate = d\<rparr>) \<and>
         int ((leading_blanks ?G + nat d - 1) mod 7)
           = (getDay \<lparr>getFullYear = 1900, getMonth = 1, getDate = d\<rparr> + 6) mod 7"
    using drawn by blast
  have "(1::int) \<le> 1 \<and> (1::int) \<le> 28"
    by simp
  with every have "?G ! (leading_blanks ?G + nat 1 - 1)
          = DayCell 1 (isDateToday date0 \<lparr>getFullYear = 1900, getMonth = 1, getDate = 1\<rparr>)
              (formatDateString \<lparr>getFullYear = 1900, getMonth = 1, getDate = 1\<rparr>)"
    by blast
  then have "?G ! 3
          = DayCell 1 (isDateToday date0 \<lparr>getFullYear = 1900, getMonth = 1, getDate = 1\<rparr>)
              (formatDateString \<lparr>getFullYear = 1900, getMonth = 1, getDate = 1\<rparr>)"
    by (simp add: b)
  moreover have "isDateToday date0 \<lparr>getFullYear = 1900, getMonth = 1, getDate = 1\<rparr> = False"
    by (simp add: isDateToday_def date0_def)
  ultimately have cell: "?G ! 3 = DayCell 1 False (js ''1900-02-01'')"
    by (simp only: formatDateString_first_of_february_1900)
  have own: "(getDay (cursor_day ?v 1) + 6) mod 7 = 1"
    by (simp add: cursor_day_def c y m getDay_def Day_def DayFromYear_def month_start_def
          is_leap_def)
  have days: "days_in_month (getFullYear (currentDate ?v)) (getMonth (currentDate ?v)) = 29"
    by (simp add: c y m days_in_month_def is_leap_def)
  show ?thesis
    using reach b l cell own days by blast
qed

end
